theory Spec2Isabelle
  imports Complex_Main
begin

section \<open>Data model of the chess engine\<close>

text \<open>
  The engine's types, as the source declares them. \<open>Color = "w" | "b"\<close> and
  \<open>PieceType = "p" | "r" | "n" | "b" | "q" | "k"\<close> are unions of string literals and
  become datatypes; \<open>colorChar\<close> and \<open>typeChar\<close> give the letter of each constructor
  back where the source builds a string from it. A \<open>Piece\<close> is \<open>{c, t}\<close>; its fields
  are named \<open>pcol\<close> and \<open>ptyp\<close> here, since one-letter constants would capture the
  variables of every statement. A \<open>Coord\<close> \<open>{r, c}\<close> is the pair \<open>(r, c)\<close> of integers
  (the source's numbers are integer-valued wherever the engine makes them). The fields
  \<open>from\<close>, \<open>to\<close>, ... of a \<open>Move\<close> carry the prefix \<open>mv_\<close>, those of a
  \<open>MoveRecord\<close> the prefix \<open>rec_\<close>, and \<open>last\<close> of a \<open>Snapshot\<close> is
  \<open>lastMove\<close>. The clocks of a snapshot are numbers that hold integers; their
  arithmetic is that of doubles, see \<open>numberAdd\<close>.
\<close>

datatype Color = White | Black

datatype PieceType = Pawn | Rook | Knight | Bishop | Queen | King

datatype Piece = Piece (pcol: Color) (ptyp: PieceType)

type_synonym Board = "Piece option list list"

type_synonym Coord = "int \<times> int"

datatype GameStatus = Playing | Checkmate | Stalemate | Draw

record CastlingRights =
  wk :: bool
  wq :: bool
  bk :: bool
  bq :: bool

datatype CastleSide = KingSide | QueenSide

record MoveRecord =
  rec_from :: string
  rec_to :: string
  rec_turn :: Color
  rec_piece :: string
  rec_captured :: "string option"
  rec_promotion :: "PieceType option"
  rec_castle :: "CastleSide option"
  rec_enPassant :: "bool option"

record Snapshot =
  board :: Board
  turn :: Color
  status :: GameStatus
  winner :: "Color option"
  resultReason :: "string option"
  history :: "MoveRecord list"
  lastMove :: "(string \<times> string) option"
  castling :: CastlingRights
  enPassant :: "string option"
  halfmoveClock :: int
  fullmoveNumber :: int
  positionKeys :: "string list"

record Move =
  mv_from :: Coord
  mv_to :: Coord
  mv_promotion :: "PieceType option"
  mv_castle :: "CastleSide option"
  mv_enPassant :: "bool option"

text \<open>
  What a failing statement of the source does. \<open>TypeError\<close>: \<open>board[r][c]\<close> where
  \<open>board[r]\<close> is \<open>undefined\<close>. \<open>OffGrid\<close>: an assignment \<open>board[r][c] = v\<close> whose
  column is outside the row; JavaScript grows the row or adds a property to it, and the
  result is no longer a grid of the data model, so the embedding stops there.
\<close>

datatype error = TypeError | OffGrid

definition colorChar :: "Color \<Rightarrow> char" where
  "colorChar col = (case col of White \<Rightarrow> CHR ''w'' | Black \<Rightarrow> CHR ''b'')"

definition typeChar :: "PieceType \<Rightarrow> char" where
  "typeChar ty = (case ty of Pawn \<Rightarrow> CHR ''p'' | Rook \<Rightarrow> CHR ''r'' | Knight \<Rightarrow> CHR ''n''
     | Bishop \<Rightarrow> CHR ''b'' | Queen \<Rightarrow> CHR ''q'' | King \<Rightarrow> CHR ''k'')"

definition FILES :: string where
  "FILES = ''abcdefgh''"

definition KNIGHT :: "(int \<times> int) list" where
  "KNIGHT = [(-2,-1),(-2,1),(-1,-2),(-1,2),(1,-2),(1,2),(2,-1),(2,1)]"

definition ROOK_DIRS :: "(int \<times> int) list" where
  "ROOK_DIRS = [(1,0),(-1,0),(0,1),(0,-1)]"

definition BISHOP_DIRS :: "(int \<times> int) list" where
  "BISHOP_DIRS = [(1,1),(1,-1),(-1,1),(-1,-1)]"

definition QUEEN_DIRS :: "(int \<times> int) list" where
  "QUEEN_DIRS = ROOK_DIRS @ BISHOP_DIRS"

text \<open>The decimal text of a number, as a template literal prints an integer.\<close>

fun digitsOf :: "nat \<Rightarrow> string" where
  "digitsOf n = (if n < 10 then [''0123456789'' ! n]
                 else digitsOf (n div 10) @ [''0123456789'' ! (n mod 10)])"

declare digitsOf.simps [simp del]

definition numberToString :: "int \<Rightarrow> string" where
  "numberToString i = (if i < 0 then CHR ''-'' # digitsOf (nat (- i)) else digitsOf (nat i))"

text \<open>
  \<open>sqName(r, c)\<close> is \<open>`${FILES[c]}${8 - r}`\<close>: a column outside the string prints as
  \<open>undefined\<close>.
\<close>

definition sqName :: "int \<Rightarrow> int \<Rightarrow> string" where
  "sqName r c = (if 0 \<le> c \<and> c < 8 then [FILES ! nat c] else ''undefined'')
                 @ numberToString (8 - r)"

text \<open>\<open>parseSquare\<close>: the test \<open>/^[a-h][1-8]$/\<close>, then \<open>{r: 8 - digit, c: index}\<close>.\<close>

definition fileIndex :: "char \<Rightarrow> int" where
  "fileIndex ch = int (length (takeWhile (\<lambda>x. x \<noteq> ch) FILES))"

definition rankDigit :: "char \<Rightarrow> int" where
  "rankDigit ch = int (length (takeWhile (\<lambda>x. x \<noteq> ch) ''012345678''))"

definition parseSquare :: "string \<Rightarrow> Coord option" where
  "parseSquare s = (case s of
      [f, d] \<Rightarrow> if f \<in> set FILES \<and> d \<in> set ''12345678''
                then Some (8 - rankDigit d, fileIndex f) else None
    | _ \<Rightarrow> None)"

definition opposite :: "Color \<Rightarrow> Color" where
  "opposite col = (if col = White then Black else White)"

definition inb :: "int \<Rightarrow> int \<Rightarrow> bool" where
  "inb r c = (r \<ge> 0 \<and> r < 8 \<and> c \<ge> 0 \<and> c < 8)"

definition code :: "Piece option \<Rightarrow> string option" where
  "code p = (case p of Some q \<Rightarrow> Some [colorChar (pcol q), typeChar (ptyp q)] | None \<Rightarrow> None)"

text \<open>
  A board of the data model is 8 rows of 8 cells; every constructor of the source
  (\<open>initialBoard\<close>, \<open>decodeBoard\<close>, \<open>cloneBoard\<close>) builds one.
\<close>

definition wf_board :: "Board \<Rightarrow> bool" where
  "wf_board b = (length b = 8 \<and> list_all (\<lambda>row. length row = 8) b)"

text \<open>
  Reading \<open>board[r][c]\<close>. \<open>cellAt\<close> is the read behind an \<open>inb(r, c)\<close> guard, or at
  constant indices: on a board of 8 rows it cannot fail, and a column outside the row
  reads \<open>undefined\<close>, which every use in the source treats as \<open>null\<close> (\<open>!p\<close>,
  \<open>p?.c\<close>, \<open>p ?? x\<close>). \<open>readCell\<close> is the read with no guard before it: a row outside
  the board is \<open>undefined\<close> and indexing it throws.
\<close>

definition cellAt :: "Board \<Rightarrow> int \<Rightarrow> int \<Rightarrow> Piece option" where
  "cellAt b r c = (if 0 \<le> r \<and> r < int (length b)
      then (let row = b ! nat r in if 0 \<le> c \<and> c < int (length row) then row ! nat c else None)
      else None)"

definition readCell :: "Board \<Rightarrow> int \<Rightarrow> int \<Rightarrow> error + Piece option" where
  "readCell b r c = (if 0 \<le> r \<and> r < int (length b) then Inr (cellAt b r c) else Inl TypeError)"

definition writeCell :: "Board \<Rightarrow> int \<Rightarrow> int \<Rightarrow> Piece option \<Rightarrow> error + Board" where
  "writeCell b r c v = (if 0 \<le> r \<and> r < int (length b)
      then (let row = b ! nat r in
            if 0 \<le> c \<and> c < int (length row) then Inr (b[nat r := row[nat c := v]])
            else Inl OffGrid)
      else Inl TypeError)"

text \<open>\<open>board[r][c]?.c === col && board[r][c]?.t === ty\<close>\<close>

definition holds :: "Board \<Rightarrow> int \<Rightarrow> int \<Rightarrow> Color \<Rightarrow> PieceType \<Rightarrow> bool" where
  "holds b r c col ty = (case cellAt b r c of Some p \<Rightarrow> pcol p = col \<and> ptyp p = ty | None \<Rightarrow> False)"

definition backRank :: "PieceType list" where
  "backRank = [Rook, Knight, Bishop, Queen, King, Bishop, Knight, Rook]"

definition initialBoard :: Board where
  "initialBoard =
     [map (\<lambda>ty. Some (Piece Black ty)) backRank,
      replicate 8 (Some (Piece Black Pawn)),
      replicate 8 None, replicate 8 None, replicate 8 None, replicate 8 None,
      replicate 8 (Some (Piece White Pawn)),
      map (\<lambda>ty. Some (Piece White ty)) backRank]"

definition initialCastling :: CastlingRights where
  "initialCastling = \<lparr>wk = True, wq = True, bk = True, bq = True\<rparr>"

section \<open>Attack detector\<close>

text \<open>
  The ray loops \<open>while (inb(r, c)) { ...; r += dr; c += dc }\<close> of the source. The loop
  ends because every step of \<open>ROOK_DIRS\<close> and \<open>BISHOP_DIRS\<close> moves; with a zero step the
  source would spin on an empty square, and the model stops instead.
\<close>

function rayAttacked :: "Board \<Rightarrow> Color \<Rightarrow> PieceType \<Rightarrow> int \<Rightarrow> int \<Rightarrow> int \<Rightarrow> int \<Rightarrow> bool" where
  "rayAttacked b byCol ty r c dr dc =
     (if inb r c \<and> (dr \<noteq> 0 \<or> dc \<noteq> 0) then
        (case cellAt b r c of
           Some p \<Rightarrow> pcol p = byCol \<and> (ptyp p = ty \<or> ptyp p = Queen)
         | None \<Rightarrow> rayAttacked b byCol ty (r + dr) (c + dc) dr dc)
      else False)"
  by pat_completeness auto
termination
  by (relation "measure (\<lambda>(b, byCol, ty, r, c, dr, dc).
        nat (if dr > 0 then 8 - r else if dr < 0 then r + 1
             else if dc > 0 then 8 - c else c + 1))")
     (auto simp: inb_def)

declare rayAttacked.simps [simp del]

definition isSquareAttacked :: "Board \<Rightarrow> int \<Rightarrow> int \<Rightarrow> Color \<Rightarrow> bool" where
  "isSquareAttacked b tr tc byCol =
     (let pd = (if byCol = White then -1 else 1) in
      list_ex (\<lambda>dc. let r = tr - pd; c = tc - dc in inb r c \<and> holds b r c byCol Pawn) [-1, 1]
      \<or> list_ex (\<lambda>(dr, dc). let r = tr + dr; c = tc + dc in inb r c \<and> holds b r c byCol Knight) KNIGHT
      \<or> list_ex (\<lambda>(dr, dc). rayAttacked b byCol Rook (tr + dr) (tc + dc) dr dc) ROOK_DIRS
      \<or> list_ex (\<lambda>(dr, dc). rayAttacked b byCol Bishop (tr + dr) (tc + dc) dr dc) BISHOP_DIRS
      \<or> list_ex (\<lambda>dr. list_ex (\<lambda>dc. (dr \<noteq> 0 \<or> dc \<noteq> 0) \<and>
            (let r = tr + dr; c = tc + dc in inb r c \<and> holds b r c byCol King)) [-1, 0, 1]) [-1, 0, 1])"

definition allSquares :: "Coord list" where
  "allSquares = concat (map (\<lambda>r. map (\<lambda>c. (r, c)) [0, 1, 2, 3, 4, 5, 6, 7]) [0, 1, 2, 3, 4, 5, 6, 7])"

definition findKing :: "Board \<Rightarrow> Color \<Rightarrow> Coord option" where
  "findKing b col = find (\<lambda>(r, c). holds b r c col King) allSquares"

definition isInCheck :: "Board \<Rightarrow> Color \<Rightarrow> bool" where
  "isInCheck b col = (case findKing b col of
      Some (kr, kc) \<Rightarrow> isSquareAttacked b kr kc (opposite col)
    | None \<Rightarrow> False)"

section \<open>Pseudo-legal move generator\<close>

definition plainMove :: "Coord \<Rightarrow> Coord \<Rightarrow> Move" where
  "plainMove src dst = \<lparr>mv_from = src, mv_to = dst, mv_promotion = None, mv_castle = None,
     mv_enPassant = None\<rparr>"

definition promoMoves :: "Coord \<Rightarrow> Coord \<Rightarrow> Move list" where
  "promoMoves src dst =
     map (\<lambda>promotion. (plainMove src dst)\<lparr>mv_promotion := Some promotion\<rparr>)
       [Queen, Rook, Bishop, Knight]"

definition rightOf :: "CastlingRights \<Rightarrow> Color \<Rightarrow> CastleSide \<Rightarrow> bool" where
  "rightOf rights col side = (case (col, side) of
      (White, KingSide) \<Rightarrow> wk rights | (White, QueenSide) \<Rightarrow> wq rights
    | (Black, KingSide) \<Rightarrow> bk rights | (Black, QueenSide) \<Rightarrow> bq rights)"

definition canCastle :: "Snapshot \<Rightarrow> Color \<Rightarrow> CastleSide \<Rightarrow> bool" where
  "canCastle s col side =
     (let row = (if col = White then 7 else 0); b = board s in
      if \<not> rightOf (castling s) col side then False
      else if \<not> holds b row 4 col King then False
      else if isInCheck b col then False
      else if side = KingSide then
        (if \<not> holds b row 7 col Rook then False
         else if cellAt b row 5 \<noteq> None \<or> cellAt b row 6 \<noteq> None then False
         else if isSquareAttacked b row 5 (opposite col) then False
         else if isSquareAttacked b row 6 (opposite col) then False
         else True)
      else
        (if \<not> holds b row 0 col Rook then False
         else if cellAt b row 1 \<noteq> None \<or> cellAt b row 2 \<noteq> None \<or> cellAt b row 3 \<noteq> None
           then False
         else if isSquareAttacked b row 3 (opposite col) then False
         else if isSquareAttacked b row 2 (opposite col) then False
         else True))"

text \<open>The closure \<open>push\<close> of \<open>pseudoMoves\<close>: the moves one call appends to \<open>out\<close>.\<close>

definition push :: "Board \<Rightarrow> Piece \<Rightarrow> Coord \<Rightarrow> int \<Rightarrow> int \<Rightarrow> Move list" where
  "push b p src rr cc =
     (if \<not> inb rr cc then []
      else (case cellAt b rr cc of
              None \<Rightarrow> [plainMove src (rr, cc)]
            | Some t \<Rightarrow> if pcol t \<noteq> pcol p then [plainMove src (rr, cc)] else []))"

text \<open>
  The pawn branch of \<open>pseudoMoves\<close>: the block of the pushes, then the loop
  \<open>for (const dc of [-1, 1])\<close>, one round of which is \<open>pawnCaptures\<close>.
\<close>

definition pawnPushes :: "Snapshot \<Rightarrow> Piece \<Rightarrow> int \<Rightarrow> int \<Rightarrow> Move list" where
  "pawnPushes s p r c =
     (let b = board s;
          dir = (if pcol p = White then -1 else 1);
          start = (if pcol p = White then 6 else 1);
          promoRow = (if pcol p = White then 0 else 7);
          one = r + dir;
          two = r + dir * 2
      in if inb one c \<and> cellAt b one c = None then
           (if one = promoRow then promoMoves (r, c) (one, c) else [plainMove (r, c) (one, c)])
           @ (if r = start \<and> inb two c \<and> cellAt b two c = None
              then [plainMove (r, c) (two, c)] else [])
         else [])"

definition pawnCaptures :: "Snapshot \<Rightarrow> Piece \<Rightarrow> int \<Rightarrow> int \<Rightarrow> int \<Rightarrow> Move list" where
  "pawnCaptures s p r c dc =
     (let b = board s;
          dir = (if pcol p = White then -1 else 1);
          promoRow = (if pcol p = White then 0 else 7);
          rr = r + dir;
          cc = c + dc
      in if \<not> inb rr cc then []
         else (case cellAt b rr cc of
                 Some target \<Rightarrow>
                   if pcol target \<noteq> pcol p then
                     (if rr = promoRow then promoMoves (r, c) (rr, cc)
                      else [plainMove (r, c) (rr, cc)])
                   else []
               | None \<Rightarrow> [])
              @ (if enPassant s = Some (sqName rr cc)
                 then [(plainMove (r, c) (rr, cc))\<lparr>mv_enPassant := Some True\<rparr>] else []))"

definition pawnMoves :: "Snapshot \<Rightarrow> Piece \<Rightarrow> int \<Rightarrow> int \<Rightarrow> Move list" where
  "pawnMoves s p r c = pawnPushes s p r c @ concat (map (pawnCaptures s p r c) [-1, 1])"

definition kingMoves :: "Snapshot \<Rightarrow> Piece \<Rightarrow> int \<Rightarrow> int \<Rightarrow> Move list" where
  "kingMoves s p r c =
     concat (map (\<lambda>dr. concat (map (\<lambda>dc.
         if dr \<noteq> 0 \<or> dc \<noteq> 0 then push (board s) p (r, c) (r + dr) (c + dc) else [])
       [-1, 0, 1])) [-1, 0, 1])
     @ (if canCastle s (pcol p) KingSide
        then [(plainMove (r, c) (r, 6))\<lparr>mv_castle := Some KingSide\<rparr>] else [])
     @ (if canCastle s (pcol p) QueenSide
        then [(plainMove (r, c) (r, 2))\<lparr>mv_castle := Some QueenSide\<rparr>] else [])"

text \<open>The ray loop of the sliding pieces; it ends as \<open>rayAttacked\<close> does.\<close>

function slide :: "Board \<Rightarrow> Piece \<Rightarrow> Coord \<Rightarrow> int \<Rightarrow> int \<Rightarrow> int \<Rightarrow> int \<Rightarrow> Move list" where
  "slide b p src rr cc dr dc =
     (if inb rr cc \<and> (dr \<noteq> 0 \<or> dc \<noteq> 0) then
        (case cellAt b rr cc of
           None \<Rightarrow> plainMove src (rr, cc) # slide b p src (rr + dr) (cc + dc) dr dc
         | Some target \<Rightarrow> if pcol target \<noteq> pcol p then [plainMove src (rr, cc)] else [])
      else [])"
  by pat_completeness auto
termination
  by (relation "measure (\<lambda>(b, p, src, rr, cc, dr, dc).
        nat (if dr > 0 then 8 - rr else if dr < 0 then rr + 1
             else if dc > 0 then 8 - cc else cc + 1))")
     (auto simp: inb_def)

declare slide.simps [simp del]

definition pseudoMoves :: "Snapshot \<Rightarrow> int \<Rightarrow> int \<Rightarrow> error + Move list" where
  "pseudoMoves s r c =
     (case readCell (board s) r c of
        Inl e \<Rightarrow> Inl e
      | Inr None \<Rightarrow> Inr []
      | Inr (Some p) \<Rightarrow> Inr
          (if ptyp p = Pawn then pawnMoves s p r c
           else if ptyp p = Knight then
             concat (map (\<lambda>(dr, dc). push (board s) p (r, c) (r + dr) (c + dc)) KNIGHT)
           else if ptyp p = King then kingMoves s p r c
           else
             (let dirs = (if ptyp p = Bishop then BISHOP_DIRS
                          else if ptyp p = Rook then ROOK_DIRS else QUEEN_DIRS)
              in concat (map (\<lambda>(dr, dc). slide (board s) p (r, c) (r + dr) (c + dc) dr dc) dirs))))"

section \<open>Move application\<close>

text \<open>
  The two clocks are JavaScript numbers that hold integers: doubles. The model keeps such
  a number as the integer it stands for. The sum of two of them is the exact sum rounded
  to the nearest double, a tie going to the even significand: \<open>ulpOf n\<close> is the
  spacing of the doubles at magnitude \<open>n\<close>, and \<open>roundDouble\<close> rounds an integer
  to a multiple of it. Up to \<open>2^53 = 9007199254740992\<close> in magnitude every integer is
  a double and nothing is rounded; \<open>9007199254740992 + 1\<close> is
  \<open>9007199254740992\<close>. The sums of the engine add 0 or 1, so none leaves the finite
  doubles.
\<close>

function ulpOf :: "int \<Rightarrow> int" where
  "ulpOf n = (if n < 9007199254740992 then 1 else 2 * ulpOf (n div 2))"
  by pat_completeness auto
termination
  by (relation "measure nat") auto

declare ulpOf.simps [simp del]

definition roundDouble :: "int \<Rightarrow> int" where
  "roundDouble n =
     (let m = \<bar>n\<bar>;
          u = ulpOf m;
          q = m div u;
          r = m mod u;
          k = (if 2 * r < u then q else if u < 2 * r then q + 1
               else if even q then q else q + 1)
      in sgn n * (k * u))"

definition numberAdd :: "int \<Rightarrow> int \<Rightarrow> int" where
  "numberAdd x y = roundDouble (x + y)"

text \<open>The object \<open>applyMoveRaw\<close> returns.\<close>

record Raw =
  raw_board :: Board
  raw_castling :: CastlingRights
  raw_enPassant :: "string option"
  raw_captured :: "Piece option"
  raw_moving :: Piece
  raw_placed :: Piece
  raw_halfmoveClock :: int
  raw_fullmoveNumber :: int
  raw_nextTurn :: Color

text \<open>
  The four tests on a corner square that \<open>applyMoveRaw\<close> runs on the origin of a rook
  move and on the destination of a move that captured a rook.
\<close>

definition clearCorner :: "CastlingRights \<Rightarrow> Coord \<Rightarrow> CastlingRights" where
  "clearCorner cs sq =
     (let c1 = (if sq = (7, 0) then cs\<lparr>wq := False\<rparr> else cs);
          c2 = (if sq = (7, 7) then c1\<lparr>wk := False\<rparr> else c1);
          c3 = (if sq = (0, 0) then c2\<lparr>bq := False\<rparr> else c2);
          c4 = (if sq = (0, 7) then c3\<lparr>bk := False\<rparr> else c3)
      in c4)"

text \<open>\<open>captured?.t === "r"\<close>\<close>

definition rookTaken :: "Piece option \<Rightarrow> bool" where
  "rookTaken captured = (case captured of Some q \<Rightarrow> ptyp q = Rook | None \<Rightarrow> False)"

definition updateCastling :: "CastlingRights \<Rightarrow> Piece \<Rightarrow> Piece option \<Rightarrow> Move \<Rightarrow> CastlingRights" where
  "updateCastling cs moving captured mv =
     (let c1 = (if ptyp moving = King then
                  (if pcol moving = White then cs\<lparr>wk := False, wq := False\<rparr>
                   else cs\<lparr>bk := False, bq := False\<rparr>)
                else cs);
          c2 = (if ptyp moving = Rook then clearCorner c1 (mv_from mv) else c1);
          c3 = (if rookTaken captured then clearCorner c2 (mv_to mv) else c2)
      in c3)"

text \<open>
  The capture step: for an en-passant move the pawn beside the destination is read and
  removed, otherwise the destination is read. It runs after the origin was emptied.
\<close>

definition takeCaptured :: "Board \<Rightarrow> Piece \<Rightarrow> Move \<Rightarrow> error + (Piece option \<times> Board)" where
  "takeCaptured b moving mv =
     (let (tr, tc) = mv_to mv in
      if mv_enPassant mv = Some True then
        (let capRow = tr + (if pcol moving = White then 1 else -1) in
         case readCell b capRow tc of
           Inl e \<Rightarrow> Inl e
         | Inr captured \<Rightarrow>
             (case writeCell b capRow tc None of
                Inl e \<Rightarrow> Inl e
              | Inr b' \<Rightarrow> Inr (captured, b')))
      else
        (case readCell b tr tc of
           Inl e \<Rightarrow> Inl e
         | Inr captured \<Rightarrow> Inr (captured, b)))"

text \<open>The rook's relocation of a castling move.\<close>

definition moveRook :: "Board \<Rightarrow> Piece \<Rightarrow> Move \<Rightarrow> error + Board" where
  "moveRook b moving mv =
     (case mv_castle mv of
        None \<Rightarrow> Inr b
      | Some side \<Rightarrow>
          (let row = (if pcol moving = White then 7 else 0);
               src = (if side = KingSide then 7 else 0);
               dst = (if side = KingSide then 5 else 3)
           in case readCell b row src of
                Inl e \<Rightarrow> Inl e
              | Inr rook \<Rightarrow>
                  (case writeCell b row src None of
                     Inl e \<Rightarrow> Inl e
                   | Inr b' \<Rightarrow> writeCell b' row dst rook)))"

text \<open>
  \<open>applyMoveRaw\<close>: \<open>Inr None\<close> is the source's \<open>return null\<close> (no piece on the
  origin), \<open>Inl e\<close> a failing statement.
\<close>

definition applyMoveRaw :: "Snapshot \<Rightarrow> Move \<Rightarrow> error + Raw option" where
  "applyMoveRaw s mv =
     (let (fr, fc) = mv_from mv; (tr, tc) = mv_to mv in
      case readCell (board s) fr fc of
        Inl e \<Rightarrow> Inl e
      | Inr None \<Rightarrow> Inr None
      | Inr (Some moving) \<Rightarrow>
          (case writeCell (board s) fr fc None of
             Inl e \<Rightarrow> Inl e
           | Inr b1 \<Rightarrow>
               (case takeCaptured b1 moving mv of
                  Inl e \<Rightarrow> Inl e
                | Inr (captured, b2) \<Rightarrow>
                    (let placed = (if ptyp moving = Pawn \<and> (tr = 0 \<or> tr = 7)
                                   then Piece (pcol moving)
                                     (case mv_promotion mv of Some ty \<Rightarrow> ty | None \<Rightarrow> Queen)
                                   else moving)
                     in case writeCell b2 tr tc (Some placed) of
                          Inl e \<Rightarrow> Inl e
                        | Inr b3 \<Rightarrow>
                            (case moveRook b3 moving mv of
                               Inl e \<Rightarrow> Inl e
                             | Inr b4 \<Rightarrow> Inr (Some
                                 \<lparr>raw_board = b4,
                                  raw_castling = updateCastling (castling s) moving captured mv,
                                  raw_enPassant =
                                    (if ptyp moving = Pawn \<and> \<bar>tr - fr\<bar> = 2
                                     then Some (sqName ((fr + tr) div 2) fc) else None),
                                  raw_captured = captured,
                                  raw_moving = moving,
                                  raw_placed = placed,
                                  raw_halfmoveClock =
                                    (if ptyp moving = Pawn \<or> captured \<noteq> None then 0
                                     else numberAdd (halfmoveClock s) 1),
                                  raw_fullmoveNumber =
                                    numberAdd (fullmoveNumber s) (if turn s = Black then 1 else 0),
                                  raw_nextTurn = opposite (turn s)\<rparr>))))))"

definition sameMove :: "Move \<Rightarrow> Move \<Rightarrow> bool" where
  "sameMove a b = (fst (mv_from a) = fst (mv_from b) \<and> snd (mv_from a) = snd (mv_from b)
     \<and> fst (mv_to a) = fst (mv_to b) \<and> snd (mv_to a) = snd (mv_to b)
     \<and> mv_promotion a = mv_promotion b \<and> mv_castle a = mv_castle b
     \<and> (mv_enPassant a = Some True) = (mv_enPassant b = Some True))"

section \<open>Legal move filter\<close>

text \<open>\<open>Array.filter\<close> with a predicate that may throw: the first failure ends it.\<close>

fun filterE :: "('a \<Rightarrow> error + bool) \<Rightarrow> 'a list \<Rightarrow> error + 'a list" where
  "filterE f [] = Inr []"
| "filterE f (x # xs) =
     (case f x of
        Inl e \<Rightarrow> Inl e
      | Inr keep \<Rightarrow>
          (case filterE f xs of
             Inl e \<Rightarrow> Inl e
           | Inr ys \<Rightarrow> Inr (if keep then x # ys else ys)))"

text \<open>The filter's predicate: \<open>!!next && !isInCheck(next.board, p.c)\<close>.\<close>

definition keepsKingSafe :: "Snapshot \<Rightarrow> Piece \<Rightarrow> Move \<Rightarrow> error + bool" where
  "keepsKingSafe s p mv =
     (case applyMoveRaw s mv of
        Inl e \<Rightarrow> Inl e
      | Inr None \<Rightarrow> Inr False
      | Inr (Some next) \<Rightarrow> Inr (\<not> isInCheck (raw_board next) (pcol p)))"

definition legalMovesForSquare :: "Snapshot \<Rightarrow> int \<Rightarrow> int \<Rightarrow> error + Move list" where
  "legalMovesForSquare s r c =
     (case readCell (board s) r c of
        Inl e \<Rightarrow> Inl e
      | Inr None \<Rightarrow> Inr []
      | Inr (Some p) \<Rightarrow>
          (case pseudoMoves s r c of
             Inl e \<Rightarrow> Inl e
           | Inr pm \<Rightarrow> filterE (keepsKingSafe s p) pm))"

section \<open>Position keys and the initial snapshot\<close>

fun joinWith :: "string \<Rightarrow> string list \<Rightarrow> string" where
  "joinWith sep [] = []"
| "joinWith sep [x] = x"
| "joinWith sep (x # y # ys) = x @ sep @ joinWith sep (y # ys)"

definition boardKey :: "Board \<Rightarrow> string" where
  "boardKey b = joinWith ''/''
     (map (\<lambda>row. joinWith [] (map (\<lambda>p. case code p of Some cd \<Rightarrow> cd | None \<Rightarrow> ''--'') row)) b)"

definition positionKey :: "Board \<Rightarrow> Color \<Rightarrow> CastlingRights \<Rightarrow> string option \<Rightarrow> string" where
  "positionKey b t cs ep =
     (let flags = (if wk cs then ''K'' else []) @ (if wq cs then ''Q'' else [])
                  @ (if bk cs then ''k'' else []) @ (if bq cs then ''q'' else []);
          castle = (if flags = [] then ''-'' else flags)
      in boardKey b @ ''|'' @ [colorChar t] @ ''|'' @ castle @ ''|''
         @ (case ep of Some sq \<Rightarrow> sq | None \<Rightarrow> ''-''))"

definition createInitialSnapshot :: Snapshot where
  "createInitialSnapshot =
     (let b = initialBoard; cs = initialCastling; key = positionKey b White cs None in
      \<lparr>board = b, turn = White, status = Playing, winner = None, resultReason = None,
       history = [], lastMove = None, castling = cs, enPassant = None,
       halfmoveClock = 0, fullmoveNumber = 1, positionKeys = [key]\<rparr>)"

section \<open>Game status\<close>

text \<open>A loop that returns \<open>true\<close> at the first hit, over a test that may throw.\<close>

fun anyE :: "('a \<Rightarrow> error + bool) \<Rightarrow> 'a list \<Rightarrow> error + bool" where
  "anyE f [] = Inr False"
| "anyE f (x # xs) =
     (case f x of
        Inl e \<Rightarrow> Inl e
      | Inr hit \<Rightarrow> if hit then Inr True else anyE f xs)"

text \<open>\<open>board[r][c]?.c === color && legalMovesForSquare(s, r, c).length\<close>\<close>

definition squareCanMove :: "Snapshot \<Rightarrow> Color \<Rightarrow> Coord \<Rightarrow> error + bool" where
  "squareCanMove s col sq =
     (let (r, c) = sq in
      if (case cellAt (board s) r c of Some p \<Rightarrow> pcol p = col | None \<Rightarrow> False) then
        (case legalMovesForSquare s r c of
           Inl e \<Rightarrow> Inl e
         | Inr ms \<Rightarrow> Inr (length ms \<noteq> 0))
      else Inr False)"

definition hasAnyLegalMove :: "Snapshot \<Rightarrow> Color \<Rightarrow> error + bool" where
  "hasAnyLegalMove s col =
     (if turn s \<noteq> col then
        (let temp = s\<lparr>turn := col\<rparr> in anyE (squareCanMove temp col) allSquares)
      else anyE (squareCanMove s col) allSquares)"

definition insufficientMaterial :: "Board \<Rightarrow> bool" where
  "insufficientMaterial b =
     (let pieces = concat (map (\<lambda>(r, c). case cellAt b r c of
                                 Some p \<Rightarrow> [(p, r, c)] | None \<Rightarrow> []) allSquares);
          nonKings = filter (\<lambda>(p, r, c2). ptyp p \<noteq> King) pieces
      in if length nonKings = 0 then True
         else if length nonKings = 1 then
           (case nonKings ! 0 of (p, r, c2) \<Rightarrow> ptyp p = Bishop \<or> ptyp p = Knight)
         else if length nonKings = 2 \<and> list_all (\<lambda>(p, r, c2). ptyp p = Bishop) nonKings then
           (let wb = filter (\<lambda>(p, r, c2). pcol p = White) nonKings;
                bb = filter (\<lambda>(p, r, c2). pcol p = Black) nonKings
            in if length wb = 1 \<and> length bb = 1 then
                 (case (wb ! 0, bb ! 0) of ((p, r, c2), (p', r', c2')) \<Rightarrow>
                    (r + c2) mod 2 = (r' + c2') mod 2)
               else False)
         else False)"

definition resultStatus :: "Snapshot \<Rightarrow> error + Snapshot" where
  "resultStatus next =
     (if status next \<noteq> Playing then Inr next
      else
        (case hasAnyLegalMove next (turn next) of
           Inl e \<Rightarrow> Inl e
         | Inr hasMoves \<Rightarrow>
             (let check = isInCheck (board next) (turn next) in
              if \<not> hasMoves then
                (if check then
                   Inr (next\<lparr>status := Checkmate, winner := Some (opposite (turn next)),
                             resultReason := Some ''checkmate''\<rparr>)
                 else
                   Inr (next\<lparr>status := Stalemate, winner := None,
                             resultReason := Some ''stalemate''\<rparr>))
              else
                (let currentKey = positionKey (board next) (turn next) (castling next)
                                    (enPassant next);
                     repetitions = length (filter (\<lambda>k. k = currentKey) (positionKeys next))
                 in if repetitions \<ge> 3 then
                      Inr (next\<lparr>status := Draw, winner := None,
                                resultReason := Some ''threefold repetition''\<rparr>)
                    else if halfmoveClock next \<ge> 100 then
                      Inr (next\<lparr>status := Draw, winner := None,
                                resultReason := Some ''fifty-move rule''\<rparr>)
                    else if insufficientMaterial (board next) then
                      Inr (next\<lparr>status := Draw, winner := None,
                                resultReason := Some ''insufficient material''\<rparr>)
                    else Inr next))))"

section \<open>Public move submission\<close>

text \<open>
  The choice of the candidate in \<open>makeMove\<close>. \<open>exactMatch\<close> is
  \<open>legal.find((mv) => sameMove(mv, desired))\<close> with \<open>desired\<close> the requested origin,
  destination and promotion; \<open>candidatesTo\<close> is the filter of the fallback,
  \<open>legal.filter((mv) => mv.to.r === to.r && mv.to.c === to.c)\<close>.
\<close>

definition exactMatch :: "Move list \<Rightarrow> Coord \<Rightarrow> Coord \<Rightarrow> PieceType option \<Rightarrow> Move option" where
  "exactMatch legal src dst promotion =
     (let desired = (plainMove src dst)\<lparr>mv_promotion := promotion\<rparr> in
      find (\<lambda>mv. sameMove mv desired) legal)"

definition candidatesTo :: "Move list \<Rightarrow> Coord \<Rightarrow> Move list" where
  "candidatesTo legal dst =
     filter (\<lambda>mv. fst (mv_to mv) = fst dst \<and> snd (mv_to mv) = snd dst) legal"

definition chooseMove :: "Move list \<Rightarrow> Coord \<Rightarrow> Coord \<Rightarrow> PieceType option \<Rightarrow> Move option" where
  "chooseMove legal src dst promotion =
     (case exactMatch legal src dst promotion of
        Some mv \<Rightarrow> Some mv
      | None \<Rightarrow>
          (let candidates = candidatesTo legal dst
           in case promotion of
                Some pr \<Rightarrow> find (\<lambda>mv. mv_promotion mv = Some pr) candidates
              | None \<Rightarrow>
                  if length candidates = 1 then Some (candidates ! 0)
                  else find (\<lambda>mv. mv_promotion mv = None) candidates))"

text \<open>The snapshot \<open>makeMove\<close> builds from the applied move, before \<open>resultStatus\<close>.\<close>

definition nextSnapshot :: "Snapshot \<Rightarrow> Coord \<Rightarrow> Coord \<Rightarrow> Piece \<Rightarrow> Move \<Rightarrow> Raw \<Rightarrow> Snapshot" where
  "nextSnapshot s src dst moving chosen raw =
     (let moveRec = \<lparr>rec_from = sqName (fst src) (snd src),
                     rec_to = sqName (fst dst) (snd dst),
                     rec_turn = pcol moving,
                     rec_piece = (case code (Some moving) of Some cd \<Rightarrow> cd | None \<Rightarrow> []),
                     rec_captured = code (raw_captured raw),
                     rec_promotion = mv_promotion chosen,
                     rec_castle = mv_castle chosen,
                     rec_enPassant = (if mv_enPassant chosen = Some True then Some True else None)\<rparr>;
          nextKey = positionKey (raw_board raw) (raw_nextTurn raw) (raw_castling raw)
                      (raw_enPassant raw)
      in \<lparr>board = raw_board raw, turn = raw_nextTurn raw, status = Playing, winner = None,
          resultReason = None, history = history s @ [moveRec],
          lastMove = Some (rec_from moveRec, rec_to moveRec),
          castling = raw_castling raw, enPassant = raw_enPassant raw,
          halfmoveClock = raw_halfmoveClock raw, fullmoveNumber = raw_fullmoveNumber raw,
          positionKeys = positionKeys s @ [nextKey]\<rparr>)"

text \<open>
  \<open>makeMove\<close>: \<open>Inr None\<close> is the source's \<open>return null\<close> (the submission is
  rejected), \<open>Inr (Some s')\<close> the new snapshot.
\<close>

definition makeMove :: "Snapshot \<Rightarrow> Coord \<Rightarrow> Coord \<Rightarrow> PieceType option \<Rightarrow> error + Snapshot option" where
  "makeMove s src dst promotion =
     (if status s \<noteq> Playing then Inr None
      else
        (case readCell (board s) (fst src) (snd src) of
           Inl e \<Rightarrow> Inl e
         | Inr None \<Rightarrow> Inr None
         | Inr (Some moving) \<Rightarrow>
             if pcol moving \<noteq> turn s then Inr None
             else
               (case legalMovesForSquare s (fst src) (snd src) of
                  Inl e \<Rightarrow> Inl e
                | Inr legal \<Rightarrow>
                    (case chooseMove legal src dst promotion of
                       None \<Rightarrow> Inr None
                     | Some chosen \<Rightarrow>
                         (case applyMoveRaw s chosen of
                            Inl e \<Rightarrow> Inl e
                          | Inr None \<Rightarrow> Inr None
                          | Inr (Some raw) \<Rightarrow>
                              if isInCheck (raw_board raw) (pcol moving) then Inr None
                              else
                                (case resultStatus (nextSnapshot s src dst moving chosen raw) of
                                   Inl e \<Rightarrow> Inl e
                                 | Inr next \<Rightarrow> Inr (Some next)))))))"

text \<open>
  \<open>[...new Set(xs)]\<close>: a \<open>Set\<close> keeps each value once, in the order of first
  insertion.
\<close>

fun setInsertAll :: "'a list \<Rightarrow> 'a list \<Rightarrow> 'a list" where
  "setInsertAll acc [] = acc"
| "setInsertAll acc (x # xs) = setInsertAll (if x \<in> set acc then acc else acc @ [x]) xs"

definition legalTargetSquares :: "Snapshot \<Rightarrow> int \<Rightarrow> int \<Rightarrow> error + string list" where
  "legalTargetSquares s r c =
     (case legalMovesForSquare s r c of
        Inl e \<Rightarrow> Inl e
      | Inr ms \<Rightarrow> Inr (setInsertAll [] (map (\<lambda>m. sqName (fst (mv_to m)) (snd (mv_to m))) ms)))"

section \<open>Serialization bridge\<close>

text \<open>
  The values of type \<open>unknown\<close> that the bridge receives are what a storage read
  yields: JSON data, and \<open>undefined\<close> for what is absent. A number is a double: a
  finite one is the real number it stands for, and \<open>Math.trunc\<close> and \<open>Math.max\<close>
  are exact on it. Reading a property of an object that lacks it, or of an array
  (for the names the bridge reads), gives \<open>undefined\<close>.
\<close>

datatype JsNumber = NaN | PosInfinity | NegInfinity | Finite real

datatype JsValue =
    JUndefined
  | JNull
  | JBool bool
  | JNum JsNumber
  | JStr string
  | JArr "JsValue list"
  | JObj "(string \<times> JsValue) list"

definition getProp :: "JsValue \<Rightarrow> string \<Rightarrow> JsValue" where
  "getProp v k = (case v of
      JObj kvs \<Rightarrow> (case map_of kvs k of Some x \<Rightarrow> x | None \<Rightarrow> JUndefined)
    | _ \<Rightarrow> JUndefined)"

text \<open>\<open>v && typeof v === "object"\<close>\<close>

definition isObject :: "JsValue \<Rightarrow> bool" where
  "isObject v = (case v of JObj kvs \<Rightarrow> True | JArr xs \<Rightarrow> True | _ \<Rightarrow> False)"

definition isString :: "JsValue \<Rightarrow> bool" where
  "isString v = (case v of JStr x \<Rightarrow> True | _ \<Rightarrow> False)"

text \<open>\<open>!!v\<close>\<close>

definition truthy :: "JsValue \<Rightarrow> bool" where
  "truthy v = (case v of
      JUndefined \<Rightarrow> False
    | JNull \<Rightarrow> False
    | JBool x \<Rightarrow> x
    | JNum n \<Rightarrow> (case n of NaN \<Rightarrow> False | Finite x \<Rightarrow> x \<noteq> 0 | _ \<Rightarrow> True)
    | JStr x \<Rightarrow> x \<noteq> []
    | _ \<Rightarrow> True)"

text \<open>\<open>Math.trunc\<close> on a finite number: rounding toward zero.\<close>

definition mathTrunc :: "real \<Rightarrow> int" where
  "mathTrunc x = (if x \<ge> 0 then \<lfloor>x\<rfloor> else \<lceil>x\<rceil>)"

definition encodeBoard :: "Board \<Rightarrow> string option list list" where
  "encodeBoard b = map (\<lambda>row. map (\<lambda>p. code p) row) b"

text \<open>A grid of type \<open>(string | null)[][]\<close> as a value of type \<open>unknown\<close>.\<close>

definition gridValue :: "string option list list \<Rightarrow> JsValue" where
  "gridValue g = JArr (map (\<lambda>row. JArr (map (\<lambda>q. case q of Some cd \<Rightarrow> JStr cd | None \<Rightarrow> JNull) row)) g)"

definition colorOfChar :: "char \<Rightarrow> Color" where
  "colorOfChar ch = (if ch = CHR ''w'' then White else Black)"

definition typeOfChar :: "char \<Rightarrow> PieceType" where
  "typeOfChar ch = (if ch = CHR ''p'' then Pawn else if ch = CHR ''r'' then Rook
     else if ch = CHR ''n'' then Knight else if ch = CHR ''b'' then Bishop
     else if ch = CHR ''q'' then Queen else King)"

text \<open>
  One cell of \<open>decodeBoard\<close>: \<open>Some None\<close> for \<open>q == null\<close> (the cell stays empty),
  \<open>Some (Some p)\<close> for a string that matches \<open>/^[wb][prnbqk]$/\<close>, and \<open>None\<close> where the
  source returns \<open>initialBoard()\<close>.
\<close>

definition decodeCell :: "JsValue \<Rightarrow> Piece option option" where
  "decodeCell q = (case q of
      JNull \<Rightarrow> Some None
    | JUndefined \<Rightarrow> Some None
    | JStr str \<Rightarrow>
        (case str of
           [a, b] \<Rightarrow> if a \<in> set ''wb'' \<and> b \<in> set ''prnbqk''
                     then Some (Some (Piece (colorOfChar a) (typeOfChar b))) else None
         | _ \<Rightarrow> None)
    | _ \<Rightarrow> None)"

fun decodeCells :: "JsValue list \<Rightarrow> Piece option list option" where
  "decodeCells [] = Some []"
| "decodeCells (q # qs) =
     (case decodeCell q of
        None \<Rightarrow> None
      | Some cell \<Rightarrow> (case decodeCells qs of None \<Rightarrow> None | Some cells \<Rightarrow> Some (cell # cells)))"

definition decodeRow :: "JsValue \<Rightarrow> Piece option list option" where
  "decodeRow row = (case row of
      JArr cells \<Rightarrow> if length cells \<noteq> 8 then None else decodeCells cells
    | _ \<Rightarrow> None)"

fun decodeRows :: "JsValue list \<Rightarrow> Board option" where
  "decodeRows [] = Some []"
| "decodeRows (row # rows) =
     (case decodeRow row of
        None \<Rightarrow> None
      | Some cells \<Rightarrow> (case decodeRows rows of None \<Rightarrow> None | Some b \<Rightarrow> Some (cells # b)))"

definition decodeBoard :: "JsValue \<Rightarrow> Board" where
  "decodeBoard v = (case v of
      JArr rows \<Rightarrow>
        if length rows \<noteq> 8 then initialBoard
        else (case decodeRows rows of None \<Rightarrow> initialBoard | Some b \<Rightarrow> b)
    | _ \<Rightarrow> initialBoard)"

text \<open>
  The type guard of the history filter checks \<open>from\<close>, \<open>to\<close>, \<open>turn\<close> and \<open>piece\<close>;
  the optional fields of a stored record are kept as they are. \<open>asMoveRecord\<close> reads
  them at their declared types and drops a value of another type.
\<close>

definition isMoveRecord :: "JsValue \<Rightarrow> bool" where
  "isMoveRecord x = (isObject x \<and> isString (getProp x ''from'') \<and> isString (getProp x ''to'')
     \<and> (getProp x ''turn'' = JStr ''w'' \<or> getProp x ''turn'' = JStr ''b'')
     \<and> isString (getProp x ''piece''))"

definition stringOf :: "JsValue \<Rightarrow> string" where
  "stringOf v = (case v of JStr x \<Rightarrow> x | _ \<Rightarrow> [])"

definition asMoveRecord :: "JsValue \<Rightarrow> MoveRecord" where
  "asMoveRecord x =
     \<lparr>rec_from = stringOf (getProp x ''from''),
      rec_to = stringOf (getProp x ''to''),
      rec_turn = (if getProp x ''turn'' = JStr ''b'' then Black else White),
      rec_piece = stringOf (getProp x ''piece''),
      rec_captured = (case getProp x ''captured'' of JStr cd \<Rightarrow> Some cd | _ \<Rightarrow> None),
      rec_promotion = (case getProp x ''promotion'' of
          JStr [ch] \<Rightarrow> if ch \<in> set ''prnbqk'' then Some (typeOfChar ch) else None
        | _ \<Rightarrow> None),
      rec_castle = (case getProp x ''castle'' of
          JStr [ch] \<Rightarrow> if ch = CHR ''k'' then Some KingSide
                       else if ch = CHR ''q'' then Some QueenSide else None
        | _ \<Rightarrow> None),
      rec_enPassant = (case getProp x ''enPassant'' of JBool f \<Rightarrow> Some f | _ \<Rightarrow> None)\<rparr>"

definition snapshotFromRemoteParts ::
  "JsValue \<Rightarrow> JsValue \<Rightarrow> JsValue \<Rightarrow> JsValue \<Rightarrow> JsValue \<Rightarrow> JsValue \<Rightarrow> JsValue \<Rightarrow> Snapshot" where
  "snapshotFromRemoteParts boardRaw turnRaw statusRaw winnerRaw historyRaw lastMoveRaw stateRaw =
     (let base = createInitialSnapshot;
          b = decodeBoard boardRaw;
          hist = (case historyRaw of
                    JArr xs \<Rightarrow> map asMoveRecord (filter isMoveRecord xs)
                  | _ \<Rightarrow> []);
          lst = (if \<not> isObject lastMoveRaw then None
                 else (case (getProp lastMoveRaw ''from'', getProp lastMoveRaw ''to'') of
                         (JStr f, JStr t) \<Rightarrow> Some (f, t)
                       | _ \<Rightarrow> None));
          st = isObject stateRaw;
          c = getProp stateRaw ''castling'';
          cs = (if st \<and> isObject c
                then \<lparr>wk = truthy (getProp c ''wk''), wq = truthy (getProp c ''wq''),
                      bk = truthy (getProp c ''bk''), bq = truthy (getProp c ''bq'')\<rparr>
                else castling base);
          ep = (if st then
                  (case getProp stateRaw ''en_passant'' of
                     JStr sq \<Rightarrow> if parseSquare sq \<noteq> None then Some sq else None
                   | _ \<Rightarrow> None)
                else None);
          hmc = (if st then
                   (case getProp stateRaw ''halfmove_clock'' of
                      JNum (Finite x) \<Rightarrow> max 0 (mathTrunc x)
                    | _ \<Rightarrow> 0)
                 else 0);
          fmn = (if st then
                   (case getProp stateRaw ''fullmove_number'' of
                      JNum (Finite x) \<Rightarrow> max 1 (mathTrunc x)
                    | _ \<Rightarrow> 1)
                 else 1);
          keys = (if st then
                    (case getProp stateRaw ''position_keys'' of
                       JArr vs \<Rightarrow> map stringOf (filter isString vs)
                     | _ \<Rightarrow> [])
                  else []);
          reason = (if st then
                      (case getProp stateRaw ''result_reason'' of
                         JStr x \<Rightarrow> Some x
                       | _ \<Rightarrow> None)
                    else None);
          t = (if turnRaw = JStr ''b'' then Black else White);
          stat = (if statusRaw = JStr ''checkmate'' then Checkmate
                  else if statusRaw = JStr ''stalemate'' then Stalemate
                  else if statusRaw = JStr ''draw'' then Draw else Playing);
          win = (if winnerRaw = JStr ''w'' then Some White
                 else if winnerRaw = JStr ''b'' then Some Black else None);
          keys' = (if length keys = 0 then [positionKey b t cs ep] else keys)
      in \<lparr>board = b, turn = t, status = stat, winner = win, resultReason = reason,
          history = hist, lastMove = lst, castling = cs, enPassant = ep,
          halfmoveClock = hmc, fullmoveNumber = fmn, positionKeys = keys'\<rparr>)"

section \<open>Quantities and positions the properties speak of\<close>

text \<open>
  The number of legal moves of a side: the lengths of \<open>legalMovesForSquare\<close>, summed
  over the squares that hold a piece of that colour.
\<close>

fun countE :: "('a \<Rightarrow> error + nat) \<Rightarrow> 'a list \<Rightarrow> error + nat" where
  "countE f [] = Inr 0"
| "countE f (x # xs) =
     (case f x of
        Inl e \<Rightarrow> Inl e
      | Inr n \<Rightarrow> (case countE f xs of Inl e \<Rightarrow> Inl e | Inr m \<Rightarrow> Inr (n + m)))"

definition legalMoveCount :: "Snapshot \<Rightarrow> Color \<Rightarrow> error + nat" where
  "legalMoveCount s col =
     countE (\<lambda>(r, c). case cellAt (board s) r c of
                 Some p \<Rightarrow>
                   if pcol p = col then
                     (case legalMovesForSquare s r c of
                        Inl e \<Rightarrow> Inl e
                      | Inr ms \<Rightarrow> Inr (length ms))
                   else Inr 0
               | None \<Rightarrow> Inr 0) allSquares"

text \<open>
  A position with a white pawn on b7 that can promote on b8 or by capturing on a8, and
  whose stored en-passant square is a8.
\<close>

definition emptyRow :: "Piece option list" where
  "emptyRow = replicate 8 None"

definition promotionSnapshot :: Snapshot where
  "promotionSnapshot =
     \<lparr>board =
        [[Some (Piece Black Rook), None, None, None, Some (Piece Black King), None, None, None],
         [None, Some (Piece White Pawn), None, None, None, None, None, None],
         emptyRow, emptyRow, emptyRow, emptyRow, emptyRow,
         [None, None, None, None, Some (Piece White King), None, None, None]],
      turn = White, status = Playing, winner = None, resultReason = None, history = [],
      lastMove = None,
      castling = \<lparr>wk = False, wq = False, bk = False, bq = False\<rparr>,
      enPassant = Some ''a8'', halfmoveClock = 0, fullmoveNumber = 40, positionKeys = []\<rparr>"

text \<open>
  The grids the round trip is stated on, in the claim's words: an 8 by 8 array, and a
  cell that is \<open>null\<close>, absent, or the two-character code of a piece.
\<close>

definition pieceCodes :: "string list" where
  "pieceCodes = concat (map (\<lambda>col. map (\<lambda>ty. [colorChar col, typeChar ty])
     [Pawn, Rook, Knight, Bishop, Queen, King]) [White, Black])"

definition validCell :: "JsValue \<Rightarrow> bool" where
  "validCell q = (case q of JNull \<Rightarrow> True | JUndefined \<Rightarrow> True
                  | JStr cd \<Rightarrow> cd \<in> set pieceCodes | _ \<Rightarrow> False)"

definition is8x8 :: "JsValue \<Rightarrow> bool" where
  "is8x8 v = (case v of
      JArr rows \<Rightarrow> length rows = 8 \<and>
        list_all (\<lambda>row. case row of JArr cells \<Rightarrow> length cells = 8 | _ \<Rightarrow> False) rows
    | _ \<Rightarrow> False)"

definition cellsOf :: "JsValue \<Rightarrow> JsValue list" where
  "cellsOf v = (case v of
      JArr rows \<Rightarrow> concat (map (\<lambda>row. case row of JArr cells \<Rightarrow> cells | _ \<Rightarrow> []) rows)
    | _ \<Rightarrow> [])"

text \<open>
  Snapshots reached by applied moves: \<open>playedFrom s s'\<close> when \<open>s'\<close> comes from \<open>s\<close> by
  zero or more submissions that \<open>makeMove\<close> accepted.
\<close>

inductive playedFrom :: "Snapshot \<Rightarrow> Snapshot \<Rightarrow> bool" where
  start: "playedFrom s s"
| move: "playedFrom s t \<Longrightarrow> makeMove t src dst promotion = Inr (Some u) \<Longrightarrow> playedFrom s u"

text \<open>How often the key of the snapshot's own position stands in its key log.\<close>

definition repetitions :: "Snapshot \<Rightarrow> nat" where
  "repetitions s =
     length (filter (\<lambda>k. k = positionKey (board s) (turn s) (castling s) (enPassant s))
               (positionKeys s))"

text \<open>A run of submissions, each with no promotion, that stops at the first rejection.\<close>

fun playMoves :: "Snapshot \<Rightarrow> (Coord \<times> Coord) list \<Rightarrow> error + Snapshot option" where
  "playMoves s [] = Inr (Some s)"
| "playMoves s (m # ms) =
     (case makeMove s (fst m) (snd m) None of
        Inl e \<Rightarrow> Inl e
      | Inr None \<Rightarrow> Inr None
      | Inr (Some s') \<Rightarrow> playMoves s' ms)"

text \<open>Both kings step forward and back: 1. e4 e5 2. Ke2 Ke7.\<close>

definition kingWalk :: "(Coord \<times> Coord) list" where
  "kingWalk = [((6, 4), (4, 4)), ((1, 4), (3, 4)), ((7, 4), (6, 4)), ((0, 4), (1, 4))]"

text \<open>The king's knights go out and come home: Nf3 Nf6 Ng1 Ng8.\<close>

definition knightShuffle :: "(Coord \<times> Coord) list" where
  "knightShuffle = [((7, 6), (5, 5)), ((0, 6), (2, 5)), ((5, 5), (7, 6)), ((2, 5), (0, 6))]"

text \<open>
  Black to move, a bishop on g2 beside the corner h1, which holds a white piece of the
  given type; white's kingside right is set.
\<close>

definition cornerSnapshot :: "PieceType \<Rightarrow> Snapshot" where
  "cornerSnapshot ty =
     \<lparr>board =
        [[None, None, None, None, Some (Piece Black King), None, None, None],
         [Some (Piece Black Pawn), None, None, None, None, None, None, None],
         emptyRow, emptyRow, emptyRow, emptyRow,
         [Some (Piece White Pawn), None, None, None, None, None, Some (Piece Black Bishop), None],
         [None, None, None, None, Some (Piece White King), None, None, Some (Piece White ty)]],
      turn = Black, status = Playing, winner = None, resultReason = None, history = [],
      lastMove = None,
      castling = \<lparr>wk = True, wq = False, bk = False, bq = False\<rparr>,
      enPassant = None, halfmoveClock = 3, fullmoveNumber = 30, positionKeys = []\<rparr>"



text \<open>
  The position of \<open>promotionSnapshot\<close>, the stored en-passant square a8 included, with
  black's queenside right set: the rook stands on a8.
\<close>

definition enPassantCornerSnapshot :: Snapshot where
  "enPassantCornerSnapshot =
     promotionSnapshot\<lparr>castling := \<lparr>wk = False, wq = False, bk = False, bq = True\<rparr>\<rparr>"

text \<open>
  A submission is accepted with the candidate \<open>ch\<close>: \<open>makeMove\<close> returns a snapshot,
  and its position is the one \<open>applyMoveRaw\<close> computes for \<open>ch\<close>.
\<close>

definition acceptedWith :: "Snapshot \<Rightarrow> Coord \<Rightarrow> Coord \<Rightarrow> PieceType option \<Rightarrow> Move \<Rightarrow> bool" where
  "acceptedWith s src dst promotion ch =
     (case makeMove s src dst promotion of
        Inr (Some s') \<Rightarrow>
          (case applyMoveRaw s ch of
             Inr (Some raw) \<Rightarrow> board s' = raw_board raw \<and> turn s' = raw_nextTurn raw
               \<and> castling s' = raw_castling raw \<and> enPassant s' = raw_enPassant raw
           | _ \<Rightarrow> False)
      | _ \<Rightarrow> False)"

text \<open>
  What holds of every snapshot reached by play from the initial snapshot: the board is
  8 by 8, a stored en-passant square lies on rank 3 or rank 6 (rows 5 and 2), and a
  castling right that is set finds its rook on the home corner.
\<close>

definition epRankOk :: "string option \<Rightarrow> bool" where
  "epRankOk ep = (case ep of
      None \<Rightarrow> True
    | Some sq \<Rightarrow> list_ex (\<lambda>c. sq = sqName 5 c \<or> sq = sqName 2 c) [0, 1, 2, 3, 4, 5, 6, 7])"

definition rooksAtHome :: "Snapshot \<Rightarrow> bool" where
  "rooksAtHome s =
     ((wk (castling s) \<longrightarrow> cellAt (board s) 7 7 = Some (Piece White Rook))
    \<and> (wq (castling s) \<longrightarrow> cellAt (board s) 7 0 = Some (Piece White Rook))
    \<and> (bk (castling s) \<longrightarrow> cellAt (board s) 0 7 = Some (Piece Black Rook))
    \<and> (bq (castling s) \<longrightarrow> cellAt (board s) 0 0 = Some (Piece Black Rook)))"

definition playInvariant :: "Snapshot \<Rightarrow> bool" where
  "playInvariant s = (wf_board (board s) \<and> epRankOk (enPassant s) \<and> rooksAtHome s)"

text \<open>White's queen's bishop goes to b2 while black opens the long diagonal: b3 g6 Bb2 a6.\<close>

definition longDiagonal :: "(Coord \<times> Coord) list" where
  "longDiagonal = [((6, 1), (5, 1)), ((1, 6), (2, 6)), ((7, 2), (6, 1)), ((1, 0), (2, 0))]"

section \<open>Verification\<close>

subsection \<open>The legal move filter\<close>

lemma filterE_sound: "filterE f xs = Inr ys \<Longrightarrow> x \<in> set ys \<Longrightarrow> x \<in> set xs \<and> f x = Inr True"
  by (induction xs arbitrary: ys) (auto split: sum.splits if_splits)

lemma slide_from: "mv \<in> set (slide b p src rr cc dr dc) \<Longrightarrow> mv_from mv = src"
proof (induction b p src rr cc dr dc rule: slide.induct)
  case (1 b p src rr cc dr dc)
  from "1.prems" have "mv \<in> set (if inb rr cc \<and> (dr \<noteq> 0 \<or> dc \<noteq> 0) then
        (case cellAt b rr cc of
           None \<Rightarrow> plainMove src (rr, cc) # slide b p src (rr + dr) (cc + dc) dr dc
         | Some target \<Rightarrow> if pcol target \<noteq> pcol p then [plainMove src (rr, cc)] else [])
      else [])"
    by (subst (asm) slide.simps) simp
  with "1.IH" show ?case
    by (auto simp: plainMove_def split: if_splits option.splits)
qed

lemma push_from: "mv \<in> set (push b p src rr cc) \<Longrightarrow> mv_from mv = src"
  by (auto simp: push_def plainMove_def split: if_splits option.splits)

lemma pawnMoves_from: "mv \<in> set (pawnMoves s p r c) \<Longrightarrow> mv_from mv = (r, c)"
  by (auto simp: pawnMoves_def pawnPushes_def pawnCaptures_def Let_def plainMove_def promoMoves_def split: if_splits option.splits)

lemma kingMoves_from: "mv \<in> set (kingMoves s p r c) \<Longrightarrow> mv_from mv = (r, c)"
  by (auto simp: kingMoves_def plainMove_def dest: push_from split: if_splits)

lemma pseudoMoves_from: "pseudoMoves s r c = Inr ms \<Longrightarrow> mv \<in> set ms \<Longrightarrow> mv_from mv = (r, c)"
  by (auto simp: pseudoMoves_def Let_def split: sum.splits option.splits if_splits
      dest: push_from slide_from pawnMoves_from kingMoves_from)

lemma applyMoveRaw_moving:
  "applyMoveRaw s mv = Inr (Some next) \<Longrightarrow> cellAt (board s) (fst (mv_from mv)) (snd (mv_from mv)) = Some (raw_moving next)"
  by (auto simp: applyMoveRaw_def readCell_def Let_def split: prod.splits sum.splits option.splits if_splits)

text \<open>
  C1. Every move that \<open>legalMovesForSquare s r c\<close> returns is a move of the piece \<open>p\<close> on
  \<open>(r, c)\<close>, the full applier \<open>applyMoveRaw\<close> (rook relocation and en-passant removal
  included) returns a result for it, and on the board of that result the king of \<open>p\<close>'s
  colour is not attacked by the opponent (\<open>isInCheck\<close> is false).
\<close>

theorem legal_move_keeps_king_safe:
  assumes "legalMovesForSquare s r c = Inr ms" and "mv \<in> set ms"
  shows "\<exists>p next. cellAt (board s) r c = Some p \<and> applyMoveRaw s mv = Inr (Some next)
           \<and> raw_moving next = p \<and> \<not> isInCheck (raw_board next) (pcol p)"
proof -
  from assms obtain p pm where p: "readCell (board s) r c = Inr (Some p)"
    and pm: "pseudoMoves s r c = Inr pm" and f: "filterE (keepsKingSafe s p) pm = Inr ms"
    by (auto simp: legalMovesForSquare_def split: sum.splits option.splits)
  from filterE_sound[OF f assms(2)] have mem: "mv \<in> set pm" and keep: "keepsKingSafe s p mv = Inr True"
    by auto
  from keep obtain nxt where nx: "applyMoveRaw s mv = Inr (Some nxt)"
    and safe: "\<not> isInCheck (raw_board nxt) (pcol p)"
    by (auto simp: keepsKingSafe_def split: sum.splits option.splits)
  from pseudoMoves_from[OF pm mem] have "mv_from mv = (r, c)" .
  with applyMoveRaw_moving[OF nx] have "cellAt (board s) r c = Some (raw_moving nxt)" by simp
  moreover from p have "cellAt (board s) r c = Some p"
    by (auto simp: readCell_def split: if_splits)
  ultimately show ?thesis using nx safe by auto
qed

theorem legal_move_keeps_king_safe_witness:
  "legalMovesForSquare promotionSnapshot 1 1 =
     Inr (promoMoves (1, 1) (0, 1) @ promoMoves (1, 1) (0, 0)
          @ [(plainMove (1, 1) (0, 0))\<lparr>mv_enPassant := Some True\<rparr>])
   \<and> (\<exists>p nxt. cellAt (board promotionSnapshot) 1 1 = Some p
         \<and> applyMoveRaw promotionSnapshot ((plainMove (1, 1) (0, 0))\<lparr>mv_enPassant := Some True\<rparr>)
             = Inr (Some nxt)
         \<and> raw_moving nxt = p \<and> \<not> isInCheck (raw_board nxt) (pcol p))"
proof -
  have h: "legalMovesForSquare promotionSnapshot 1 1 =
     Inr (promoMoves (1, 1) (0, 1) @ promoMoves (1, 1) (0, 0)
          @ [(plainMove (1, 1) (0, 0))\<lparr>mv_enPassant := Some True\<rparr>])"
    by code_simp
  show ?thesis
    using h legal_move_keeps_king_safe [OF h, of "(plainMove (1, 1) (0, 0))\<lparr>mv_enPassant := Some True\<rparr>"]
    by simp
qed

subsection \<open>The opening count\<close>

text \<open>
  C7. In the snapshot of \<open>createInitialSnapshot\<close>, the legal moves of white, counted
  over all squares that hold a white piece, are exactly 20.
\<close>

theorem initial_position_has_20_moves:
  "legalMoveCount createInitialSnapshot White = Inr 20"
  by code_simp

subsection \<open>Destination squares\<close>

lemma setInsertAll_distinct: "distinct acc \<Longrightarrow> distinct (setInsertAll acc xs)"
  by (induction xs arbitrary: acc) auto

lemma setInsertAll_set: "set (setInsertAll acc xs) = set acc \<union> set xs"
  by (induction xs arbitrary: acc) auto

text \<open>
  C9. \<open>legalTargetSquares\<close> returns each destination name once: the list has no
  duplicate, and its names are exactly the destinations of the legal moves, so the four
  promotion variants onto one square give one name.
\<close>

theorem legalTargetSquares_distinct:
  assumes "legalMovesForSquare s r c = Inr ms"
  shows "\<exists>names. legalTargetSquares s r c = Inr names \<and> distinct names
           \<and> set names = (\<lambda>m. sqName (fst (mv_to m)) (snd (mv_to m))) ` set ms"
  using assms
  by (simp add: legalTargetSquares_def setInsertAll_distinct setInsertAll_set)

theorem legalTargetSquares_distinct_witness:
  "length (case legalMovesForSquare promotionSnapshot 1 1 of Inr ms \<Rightarrow> ms | Inl e \<Rightarrow> []) = 9
   \<and> legalTargetSquares promotionSnapshot 1 1 = Inr [''b8'', ''a8'']
   \<and> (\<exists>names. legalTargetSquares promotionSnapshot 1 1 = Inr names \<and> distinct names)"
proof -
  have h: "legalMovesForSquare promotionSnapshot 1 1 =
     Inr (promoMoves (1, 1) (0, 1) @ promoMoves (1, 1) (0, 0)
          @ [(plainMove (1, 1) (0, 0))\<lparr>mv_enPassant := Some True\<rparr>])"
    by code_simp
  have n: "legalTargetSquares promotionSnapshot 1 1 = Inr [''b8'', ''a8'']"
    by code_simp
  from legalTargetSquares_distinct [OF h] obtain names
    where "legalTargetSquares promotionSnapshot 1 1 = Inr names" and "distinct names"
    by blast
  with h n show ?thesis by (simp add: promoMoves_def)
qed

subsection \<open>The board's round trip\<close>

lemma decodeCell_code:
  "decodeCell (case code p of Some cd \<Rightarrow> JStr cd | None \<Rightarrow> JNull) = Some p"
proof (cases p)
  case None
  then show ?thesis by (simp add: code_def decodeCell_def)
next
  case (Some q)
  obtain col ty where q: "q = Piece col ty" by (cases q)
  show ?thesis unfolding Some q
    by (cases col; cases ty)
       (simp_all add: code_def decodeCell_def colorChar_def typeChar_def colorOfChar_def typeOfChar_def)
qed

lemma decodeCells_code:
  "decodeCells (map (\<lambda>p. case code p of Some cd \<Rightarrow> JStr cd | None \<Rightarrow> JNull) row) = Some row"
  by (induction row) (simp_all add: decodeCell_code)

lemma decodeRows_code:
  "list_all (\<lambda>row. length row = 8) b \<Longrightarrow>
   decodeRows (map (\<lambda>row. JArr (map (\<lambda>p. case code p of Some cd \<Rightarrow> JStr cd | None \<Rightarrow> JNull) row)) b)
     = Some b"
  by (induction b) (simp_all add: decodeRow_def decodeCells_code)

lemma decode_encode: "wf_board b \<Longrightarrow> decodeBoard (gridValue (encodeBoard b)) = b"
  by (simp add: wf_board_def decodeBoard_def gridValue_def encodeBoard_def decodeRows_code comp_def)

lemma decodeCell_valid: "decodeCell q \<noteq> None \<Longrightarrow> validCell q"
  by (auto simp: decodeCell_def validCell_def pieceCodes_def colorChar_def typeChar_def
      split: JsValue.splits list.splits if_splits)

lemma decodeCells_valid: "decodeCells qs = Some cells \<Longrightarrow> list_all validCell qs"
  by (induction qs arbitrary: cells) (auto split: option.splits dest: decodeCell_valid[OF] simp: decodeCell_valid)

lemma decodeRows_valid:
  "decodeRows rows = Some b \<Longrightarrow>
     list_all (\<lambda>row. case row of JArr cells \<Rightarrow> length cells = 8 | _ \<Rightarrow> False) rows
     \<and> list_all validCell (concat (map (\<lambda>row. case row of JArr cells \<Rightarrow> cells | _ \<Rightarrow> []) rows))"
  by (induction rows arbitrary: b)
     (auto simp: decodeRow_def split: option.splits JsValue.splits if_splits dest: decodeCells_valid)

lemma decode_fallback:
  "\<not> is8x8 v \<or> list_ex (\<lambda>q. \<not> validCell q) (cellsOf v) \<Longrightarrow> decodeBoard v = initialBoard"
  by (cases v)
     (auto simp: decodeBoard_def is8x8_def cellsOf_def list_ex_iff list_all_iff
        split: option.splits dest!: decodeRows_valid)

text \<open>
  C8. Decoding the encoding of a board of 8 rows of 8 cells gives the board back; and
  an input that is not an 8 by 8 array, or that holds a cell which is neither \<open>null\<close>,
  absent, nor the code of a piece, decodes to the standard initial board.
\<close>

theorem decodeBoard_roundtrip_and_fallback:
  "(wf_board b \<longrightarrow> decodeBoard (gridValue (encodeBoard b)) = b)
   \<and> (\<not> is8x8 v \<or> list_ex (\<lambda>q. \<not> validCell q) (cellsOf v) \<longrightarrow> decodeBoard v = initialBoard)"
  using decode_encode decode_fallback by blast

theorem decodeBoard_roundtrip_and_fallback_witness:
  "wf_board (board promotionSnapshot)
   \<and> decodeBoard (gridValue (encodeBoard (board promotionSnapshot))) = board promotionSnapshot
   \<and> board promotionSnapshot \<noteq> initialBoard
   \<and> list_ex (\<lambda>q. \<not> validCell q)
        (cellsOf (JArr (replicate 7 (JArr (replicate 8 JNull)) @ [JArr (replicate 7 JNull @ [JStr ''wx''])])))
   \<and> decodeBoard (JArr (replicate 7 (JArr (replicate 8 JNull)) @ [JArr (replicate 7 JNull @ [JStr ''wx''])]))
       = initialBoard"
proof -
  have w: "wf_board (board promotionSnapshot)"
    by (simp add: wf_board_def promotionSnapshot_def emptyRow_def)
  have d: "board promotionSnapshot \<noteq> initialBoard"
    by (simp add: promotionSnapshot_def initialBoard_def backRank_def)
  have x: "list_ex (\<lambda>q. \<not> validCell q)
        (cellsOf (JArr (replicate 7 (JArr (replicate 8 JNull)) @ [JArr (replicate 7 JNull @ [JStr ''wx''])])))"
    by (simp add: cellsOf_def validCell_def pieceCodes_def colorChar_def typeChar_def)
  show ?thesis
    using w d x decodeBoard_roundtrip_and_fallback
      [of "board promotionSnapshot"
          "JArr (replicate 7 (JArr (replicate 8 JNull)) @ [JArr (replicate 7 JNull @ [JStr ''wx''])])"]
    by blast
qed

subsection \<open>Clocks of a reconstructed snapshot\<close>

lemma mathTrunc_toward_zero:
  "\<bar>real_of_int (mathTrunc x)\<bar> \<le> \<bar>x\<bar> \<and> \<bar>x\<bar> < \<bar>real_of_int (mathTrunc x)\<bar> + 1
   \<and> (0 \<le> x \<longrightarrow> 0 \<le> mathTrunc x) \<and> (x \<le> 0 \<longrightarrow> mathTrunc x \<le> 0)"
  unfolding mathTrunc_def by (auto; linarith)

text \<open>
  C10. Whatever \<open>snapshotFromRemoteParts\<close> is given, the halfmove clock of the snapshot
  it returns is an integer that is at least 0 and its fullmove number an integer that is
  at least 1: a finite stored number is truncated toward zero and then raised to 0,
  respectively 1, and any other stored value (not a number, \<open>NaN\<close>, an infinity, or no
  state object at all) gives 0, respectively 1.
\<close>

theorem remote_clocks:
  "(let s = snapshotFromRemoteParts boardRaw turnRaw statusRaw winnerRaw historyRaw lastMoveRaw stateRaw;
        hm = (if isObject stateRaw then getProp stateRaw ''halfmove_clock'' else JUndefined);
        fm = (if isObject stateRaw then getProp stateRaw ''fullmove_number'' else JUndefined)
    in 0 \<le> halfmoveClock s \<and> 1 \<le> fullmoveNumber s
       \<and> halfmoveClock s = (case hm of JNum (Finite x) \<Rightarrow> max 0 (mathTrunc x) | _ \<Rightarrow> 0)
       \<and> fullmoveNumber s = (case fm of JNum (Finite x) \<Rightarrow> max 1 (mathTrunc x) | _ \<Rightarrow> 1))"
  by (simp add: snapshotFromRemoteParts_def Let_def split: JsValue.splits JsNumber.splits)

subsection \<open>What an accepted submission consists of\<close>

lemma accepted_caseD:
  "(case x of Inl e \<Rightarrow> False | Inr None \<Rightarrow> False | Inr (Some a) \<Rightarrow> P a)
     \<Longrightarrow> \<exists>a. x = Inr (Some a) \<and> P a"
  by (auto split: sum.splits option.splits)

lemma find_SomeD: "find P xs = Some x \<Longrightarrow> x \<in> set xs \<and> P x"
  by (induction xs) (auto split: if_splits)

lemma chooseMove_mem:
  assumes "chooseMove legal src dst promotion = Some ch"
  shows "ch \<in> set legal \<and> mv_to ch = dst"
proof (cases "exactMatch legal src dst promotion")
  case (Some mv)
  with assms have "ch = mv" by (simp add: chooseMove_def)
  with find_SomeD [of _ legal ch] Some show ?thesis
    by (auto simp: exactMatch_def Let_def sameMove_def plainMove_def prod_eq_iff)
next
  case None
  let ?cands = "candidatesTo legal dst"
  have "ch \<in> set ?cands"
  proof (cases promotion)
    case (Some pr)
    with None assms have "find (\<lambda>mv. mv_promotion mv = Some pr) ?cands = Some ch"
      by (simp add: chooseMove_def)
    then show ?thesis by (blast dest: find_SomeD)
  next
    case np: None
    show ?thesis
    proof (cases "length ?cands = 1")
      case True
      with None np assms have "ch = ?cands ! 0" by (simp add: chooseMove_def)
      with True show ?thesis by (metis nth_mem zero_less_one)
    next
      case False
      with None np assms have "find (\<lambda>mv. mv_promotion mv = None) ?cands = Some ch"
        by (simp add: chooseMove_def)
      then show ?thesis by (blast dest: find_SomeD)
    qed
  qed
  then show ?thesis by (auto simp: candidatesTo_def prod_eq_iff)
qed

lemma makeMove_SomeD:
  assumes "makeMove s src dst promotion = Inr (Some s')"
  shows "\<exists>moving legal chosen raw.
           status s = Playing
         \<and> cellAt (board s) (fst src) (snd src) = Some moving
         \<and> pcol moving = turn s
         \<and> legalMovesForSquare s (fst src) (snd src) = Inr legal
         \<and> chooseMove legal src dst promotion = Some chosen
         \<and> applyMoveRaw s chosen = Inr (Some raw)
         \<and> \<not> isInCheck (raw_board raw) (pcol moving)
         \<and> resultStatus (nextSnapshot s src dst moving chosen raw) = Inr s'"
  using assms
  by (auto simp: makeMove_def readCell_def split: if_splits sum.splits option.splits)

lemma resultStatus_fields:
  assumes "resultStatus n = Inr n'"
  shows "board n' = board n \<and> turn n' = turn n \<and> castling n' = castling n
       \<and> enPassant n' = enPassant n \<and> halfmoveClock n' = halfmoveClock n
       \<and> fullmoveNumber n' = fullmoveNumber n \<and> positionKeys n' = positionKeys n
       \<and> history n' = history n \<and> lastMove n' = lastMove n"
  using assms
  by (auto simp: resultStatus_def Let_def split: if_splits sum.splits)

lemma legal_from:
  assumes "legalMovesForSquare s r c = Inr ms" and "mv \<in> set ms"
  shows "mv_from mv = (r, c)"
proof -
  from assms obtain p pm where pm: "pseudoMoves s r c = Inr pm"
    and f: "filterE (keepsKingSafe s p) pm = Inr ms"
    by (auto simp: legalMovesForSquare_def split: sum.splits option.splits)
  from filterE_sound[OF f assms(2)] have "mv \<in> set pm" by simp
  with pm show ?thesis by (rule pseudoMoves_from)
qed

lemma clearCorner_rights:
  "wk (clearCorner cs sq) = (wk cs \<and> sq \<noteq> (7, 7))"
  "wq (clearCorner cs sq) = (wq cs \<and> sq \<noteq> (7, 0))"
  "bk (clearCorner cs sq) = (bk cs \<and> sq \<noteq> (0, 7))"
  "bq (clearCorner cs sq) = (bq cs \<and> sq \<noteq> (0, 0))"
  by (simp_all add: clearCorner_def Let_def)

lemma updateCastling_rights:
  "wk (updateCastling cs moving captured mv) =
     (wk cs \<and> \<not> (ptyp moving = King \<and> pcol moving = White)
      \<and> \<not> (ptyp moving = Rook \<and> mv_from mv = (7, 7)) \<and> \<not> (rookTaken captured \<and> mv_to mv = (7, 7)))"
  "wq (updateCastling cs moving captured mv) =
     (wq cs \<and> \<not> (ptyp moving = King \<and> pcol moving = White)
      \<and> \<not> (ptyp moving = Rook \<and> mv_from mv = (7, 0)) \<and> \<not> (rookTaken captured \<and> mv_to mv = (7, 0)))"
  "bk (updateCastling cs moving captured mv) =
     (bk cs \<and> \<not> (ptyp moving = King \<and> pcol moving \<noteq> White)
      \<and> \<not> (ptyp moving = Rook \<and> mv_from mv = (0, 7)) \<and> \<not> (rookTaken captured \<and> mv_to mv = (0, 7)))"
  "bq (updateCastling cs moving captured mv) =
     (bq cs \<and> \<not> (ptyp moving = King \<and> pcol moving \<noteq> White)
      \<and> \<not> (ptyp moving = Rook \<and> mv_from mv = (0, 0)) \<and> \<not> (rookTaken captured \<and> mv_to mv = (0, 0)))"
  unfolding updateCastling_def Let_def
  by (simp_all add: clearCorner_rights; blast)+

lemma applyMoveRaw_fields:
  assumes "applyMoveRaw s mv = Inr (Some raw)"
  shows "raw_castling raw = updateCastling (castling s) (raw_moving raw) (raw_captured raw) mv
       \<and> raw_halfmoveClock raw =
           (if ptyp (raw_moving raw) = Pawn \<or> raw_captured raw \<noteq> None then 0
            else numberAdd (halfmoveClock s) 1)
       \<and> raw_fullmoveNumber raw =
           numberAdd (fullmoveNumber s) (if turn s = Black then 1 else 0)
       \<and> raw_nextTurn raw = opposite (turn s)"
  using assms
  by (auto simp: applyMoveRaw_def Let_def split: prod.splits sum.splits option.splits)

lemma makeMove_castling_mono:
  assumes "makeMove s src dst promotion = Inr (Some s')"
  shows "(wk (castling s') \<longrightarrow> wk (castling s)) \<and> (wq (castling s') \<longrightarrow> wq (castling s))
       \<and> (bk (castling s') \<longrightarrow> bk (castling s)) \<and> (bq (castling s') \<longrightarrow> bq (castling s))"
proof -
  from makeMove_SomeD[OF assms] obtain moving chosen raw
    where raw: "applyMoveRaw s chosen = Inr (Some raw)"
      and rs: "resultStatus (nextSnapshot s src dst moving chosen raw) = Inr s'"
    by blast
  from resultStatus_fields[OF rs] have "castling s' = raw_castling raw"
    by (simp add: nextSnapshot_def Let_def)
  with applyMoveRaw_fields[OF raw] show ?thesis by (simp add: updateCastling_rights)
qed

lemma applyMoveRaw_verdict_irrelevant:
  "applyMoveRaw (n\<lparr>status := a, winner := b, resultReason := c\<rparr>) mv = applyMoveRaw n mv"
  by (simp add: applyMoveRaw_def Let_def cong: prod.case_cong sum.case_cong option.case_cong if_cong)

lemma pseudoMoves_verdict_irrelevant:
  "pseudoMoves (n\<lparr>status := a, winner := b, resultReason := c\<rparr>) r col = pseudoMoves n r col"
  by (simp add: pseudoMoves_def pawnMoves_def pawnPushes_def pawnCaptures_def kingMoves_def canCastle_def Let_def
        cong: prod.case_cong sum.case_cong option.case_cong if_cong)

lemma keepsKingSafe_verdict_irrelevant:
  "keepsKingSafe (n\<lparr>status := a, winner := b, resultReason := c\<rparr>) p = keepsKingSafe n p"
  by (rule ext) (simp add: keepsKingSafe_def applyMoveRaw_verdict_irrelevant
        cong: sum.case_cong option.case_cong)

lemma legalMoves_verdict_irrelevant:
  "legalMovesForSquare (n\<lparr>status := a, winner := b, resultReason := c\<rparr>) r col
     = legalMovesForSquare n r col"
  by (simp add: legalMovesForSquare_def pseudoMoves_verdict_irrelevant keepsKingSafe_verdict_irrelevant
        cong: sum.case_cong option.case_cong)

lemma squareCanMove_verdict_irrelevant:
  "squareCanMove (n\<lparr>status := a, winner := b, resultReason := c\<rparr>) col = squareCanMove n col"
  by (rule ext) (simp add: squareCanMove_def legalMoves_verdict_irrelevant
        cong: sum.case_cong option.case_cong prod.case_cong if_cong)

lemma hasAnyLegalMove_verdict_irrelevant:
  "hasAnyLegalMove (n\<lparr>status := a, winner := b, resultReason := c\<rparr>) col = hasAnyLegalMove n col"
proof -
  have swap: "(n\<lparr>status := a, winner := b, resultReason := c\<rparr>)\<lparr>turn := col\<rparr>
                = (n\<lparr>turn := col\<rparr>)\<lparr>status := a, winner := b, resultReason := c\<rparr>"
    by simp
  show ?thesis
    unfolding hasAnyLegalMove_def Let_def swap squareCanMove_verdict_irrelevant
    by simp
qed

lemma verdict_update_self:
  "\<exists>a b c. (m :: Snapshot) = m\<lparr>status := a, winner := b, resultReason := c\<rparr>"
proof -
  have "m = m\<lparr>status := status m, winner := winner m, resultReason := resultReason m\<rparr>"
    by simp
  then show ?thesis by blast
qed

lemma resultStatus_shape:
  assumes "resultStatus n = Inr n'"
  shows "\<exists>a b c. n' = n\<lparr>status := a, winner := b, resultReason := c\<rparr>"
  using assms
  by (auto simp: resultStatus_def Let_def verdict_update_self split: if_splits sum.splits)

lemma resultStatus_draws:
  assumes play: "status n = Playing" and rs: "resultStatus n = Inr n'"
    and moves: "hasAnyLegalMove n' (turn n') = Inr True"
  shows "(3 \<le> repetitions n' \<longleftrightarrow> status n' = Draw \<and> resultReason n' = Some ''threefold repetition'')
       \<and> (repetitions n' < 3 \<and> 100 \<le> halfmoveClock n' \<longrightarrow>
            status n' = Draw \<and> resultReason n' = Some ''fifty-move rule'')"
proof -
  from resultStatus_shape[OF rs] obtain a b c
    where n': "n' = n\<lparr>status := a, winner := b, resultReason := c\<rparr>" by blast
  with moves have hm: "hasAnyLegalMove n (turn n) = Inr True"
    by (simp add: hasAnyLegalMove_verdict_irrelevant)
  have reps: "repetitions n' = repetitions n"
    using resultStatus_fields[OF rs] by (simp add: repetitions_def)
  have clock: "halfmoveClock n' = halfmoveClock n"
    using resultStatus_fields[OF rs] by simp
  from rs play hm show ?thesis unfolding reps clock
    by (auto simp: resultStatus_def Let_def repetitions_def split: if_splits)
qed

lemma cellAt_writeCell:
  assumes "writeCell b r c v = Inr b'"
  shows "cellAt b' r' c' = (if r' = r \<and> c' = c then v else cellAt b r' c')"
proof -
  from assms have r: "0 \<le> r" "r < int (length b)" and c: "0 \<le> c" "c < int (length (b ! nat r))"
    and b': "b' = b[nat r := (b ! nat r)[nat c := v]]"
    by (auto simp: writeCell_def Let_def split: if_splits)
  show ?thesis
  proof (cases "r' = r")
    case True
    with r c show ?thesis unfolding b' cellAt_def Let_def
      by (auto simp: nth_list_update nat_eq_iff)
  next
    case False
    with r have "0 \<le> r' \<Longrightarrow> nat r' \<noteq> nat r" by (simp add: nat_eq_iff)
    with False show ?thesis unfolding b' cellAt_def Let_def
      by (auto simp: nth_list_update)
  qed
qed

lemma applyMoveRaw_captured:
  assumes "applyMoveRaw s mv = Inr (Some raw)"
  shows "raw_captured raw =
           (if mv_enPassant mv = Some True then
              (if (fst (mv_to mv) + (if pcol (raw_moving raw) = White then 1 else -1), snd (mv_to mv))
                    = mv_from mv then None
               else cellAt (board s) (fst (mv_to mv) + (if pcol (raw_moving raw) = White then 1 else -1))
                      (snd (mv_to mv)))
            else if mv_to mv = mv_from mv then None
            else cellAt (board s) (fst (mv_to mv)) (snd (mv_to mv)))"
proof -
  obtain fr fc tr tc where ft: "mv_from mv = (fr, fc)" "mv_to mv = (tr, tc)"
    by (cases "mv_from mv"; cases "mv_to mv") auto
  from assms ft obtain moving b1 captured b2 where
        b1: "writeCell (board s) fr fc None = Inr b1"
    and tc: "takeCaptured b1 moving mv = Inr (captured, b2)"
    and rm: "raw_moving raw = moving" and rc: "raw_captured raw = captured"
    by (auto simp: applyMoveRaw_def Let_def split: sum.splits option.splits prod.splits)
  from tc ft have "captured =
      (if mv_enPassant mv = Some True
       then cellAt b1 (tr + (if pcol moving = White then 1 else -1)) tc
       else cellAt b1 tr tc)"
    by (auto simp: takeCaptured_def readCell_def Let_def split: if_splits sum.splits)
  then show ?thesis
    unfolding rc rm ft cellAt_writeCell[OF b1] by (auto split: if_splits)
qed

subsection \<open>Castling rights\<close>

text \<open>
  C4. A castling right that is false stays false: in every snapshot that comes from a
  snapshot \<open>s\<close> by applied moves (so also from one reached from the initial snapshot),
  each of the four rights that is false in \<open>s\<close> is false.
\<close>

theorem castling_rights_never_return:
  assumes "playedFrom s s'"
  shows "(\<not> wk (castling s) \<longrightarrow> \<not> wk (castling s')) \<and> (\<not> wq (castling s) \<longrightarrow> \<not> wq (castling s'))
       \<and> (\<not> bk (castling s) \<longrightarrow> \<not> bk (castling s')) \<and> (\<not> bq (castling s) \<longrightarrow> \<not> bq (castling s'))"
  using assms
proof (induction rule: playedFrom.induct)
  case (start s)
  show ?case by simp
next
  case (move s t src dst promotion u)
  from makeMove_castling_mono[OF move.hyps(2)] move.IH show ?case by blast
qed

theorem castling_rights_never_return_witness:
  "\<exists>a b. playMoves createInitialSnapshot (take 3 kingWalk) = Inr (Some a)
     \<and> playedFrom a b \<and> a \<noteq> b
     \<and> wk (castling createInitialSnapshot) \<and> \<not> wk (castling a) \<and> \<not> wk (castling b)"
proof -
  have e: "case playMoves createInitialSnapshot (take 3 kingWalk) of
          Inr (Some a) \<Rightarrow> \<not> wk (castling a) \<and>
            (case makeMove a (0, 4) (1, 4) None of
               Inr (Some b) \<Rightarrow> turn a \<noteq> turn b
             | _ \<Rightarrow> False)
        | _ \<Rightarrow> False"
    by code_simp
  from accepted_caseD [OF e] obtain a
    where a: "playMoves createInitialSnapshot (take 3 kingWalk) = Inr (Some a)"
      and wa: "\<not> wk (castling a)"
      and e2: "case makeMove a (0, 4) (1, 4) None of
                 Inr (Some b) \<Rightarrow> turn a \<noteq> turn b | _ \<Rightarrow> False"
    by blast
  from accepted_caseD [OF e2] obtain b
    where m: "makeMove a (0, 4) (1, 4) None = Inr (Some b)" and ne: "turn a \<noteq> turn b"
    by blast
  have p: "playedFrom a b"
    by (rule playedFrom.move [OF playedFrom.start m])
  have i: "wk (castling createInitialSnapshot)"
    by (simp add: createInitialSnapshot_def initialCastling_def Let_def)
  from castling_rights_never_return [OF p] wa have "\<not> wk (castling b)"
    by blast
  with a p i wa ne show ?thesis by blast
qed

subsection \<open>Draws by repetition and by the fifty-move rule\<close>

text \<open>
  C5. After an applied move the key of the new position is appended to the key log.
  When the side to move then has a legal move, the new snapshot is a draw with reason
  \<open>threefold repetition\<close> exactly when that key stands at least 3 times in the log
  (the new entry included): at 3 occurrences whatever the halfmove clock and the
  material are, and not with fewer.
\<close>

theorem threefold_repetition_draw:
  assumes "makeMove s src dst promotion = Inr (Some s')"
      and "hasAnyLegalMove s' (turn s') = Inr True"
  shows "positionKeys s' =
           positionKeys s @ [positionKey (board s') (turn s') (castling s') (enPassant s')]
       \<and> (3 \<le> repetitions s' \<longleftrightarrow>
            status s' = Draw \<and> resultReason s' = Some ''threefold repetition'')"
proof -
  from makeMove_SomeD[OF assms(1)] obtain moving chosen raw
    where rs: "resultStatus (nextSnapshot s src dst moving chosen raw) = Inr s'"
    by blast
  have play: "status (nextSnapshot s src dst moving chosen raw) = Playing"
    by (simp add: nextSnapshot_def Let_def)
  from resultStatus_fields[OF rs]
  have "positionKeys s' =
           positionKeys s @ [positionKey (board s') (turn s') (castling s') (enPassant s')]"
    by (simp add: nextSnapshot_def Let_def)
  with resultStatus_draws[OF play rs assms(2)] show ?thesis by blast
qed

theorem threefold_repetition_draw_witness:
  "\<exists>a b c. playMoves createInitialSnapshot knightShuffle = Inr (Some a)
     \<and> repetitions a = 2 \<and> status a = Playing
     \<and> playMoves a (take 3 knightShuffle) = Inr (Some b)
     \<and> makeMove b (2, 5) (0, 6) None = Inr (Some c)
     \<and> repetitions c = 3 \<and> status c = Draw \<and> resultReason c = Some ''threefold repetition''"
proof -
  have e: "case playMoves createInitialSnapshot knightShuffle of
          Inr (Some a) \<Rightarrow> repetitions a = 2 \<and> status a = Playing \<and>
            (case playMoves a (take 3 knightShuffle) of
               Inr (Some b) \<Rightarrow>
                 (case makeMove b (2, 5) (0, 6) None of
                    Inr (Some c) \<Rightarrow> hasAnyLegalMove c (turn c) = Inr True \<and> repetitions c = 3
                  | _ \<Rightarrow> False)
             | _ \<Rightarrow> False)
        | _ \<Rightarrow> False"
    by code_simp
  from accepted_caseD [OF e] obtain a
    where a: "playMoves createInitialSnapshot knightShuffle = Inr (Some a)"
      and ra: "repetitions a = 2 \<and> status a = Playing"
      and e2: "case playMoves a (take 3 knightShuffle) of
                 Inr (Some b) \<Rightarrow>
                   (case makeMove b (2, 5) (0, 6) None of
                      Inr (Some c) \<Rightarrow> hasAnyLegalMove c (turn c) = Inr True \<and> repetitions c = 3
                    | _ \<Rightarrow> False)
               | _ \<Rightarrow> False"
    by blast
  from accepted_caseD [OF e2] obtain b
    where b: "playMoves a (take 3 knightShuffle) = Inr (Some b)"
      and e3: "case makeMove b (2, 5) (0, 6) None of
                 Inr (Some c) \<Rightarrow> hasAnyLegalMove c (turn c) = Inr True \<and> repetitions c = 3
               | _ \<Rightarrow> False"
    by blast
  from accepted_caseD [OF e3] obtain c
    where m: "makeMove b (2, 5) (0, 6) None = Inr (Some c)"
      and h: "hasAnyLegalMove c (turn c) = Inr True" and r: "repetitions c = 3"
    by blast
  from threefold_repetition_draw [OF m h] r
  have "status c = Draw \<and> resultReason c = Some ''threefold repetition''"
    by simp
  with a ra b m r show ?thesis by blast
qed












subsection \<open>No statement fails on a board of the data model\<close>

lemma wf_row: "wf_board b \<Longrightarrow> 0 \<le> r \<Longrightarrow> r < 8 \<Longrightarrow> length (b ! nat r) = 8"
  by (auto simp: wf_board_def list_all_length)

lemma wf_readCell: "wf_board b \<Longrightarrow> 0 \<le> r \<Longrightarrow> r < 8 \<Longrightarrow> readCell b r c = Inr (cellAt b r c)"
  by (simp add: readCell_def wf_board_def)

lemma wf_writeCell:
  assumes "wf_board b" and "inb r c"
  shows "\<exists>b'. writeCell b r c v = Inr b' \<and> wf_board b'"
proof -
  from assms have r: "0 \<le> r" "r < 8" and c: "0 \<le> c" "c < 8" by (auto simp: inb_def)
  from wf_row[OF assms(1) r] have len: "length (b ! nat r) = 8" .
  from assms(1) r have lb: "length b = 8" by (simp add: wf_board_def)
  have w: "writeCell b r c v = Inr (b[nat r := (b ! nat r)[nat c := v]])"
    using r c len lb by (simp add: writeCell_def Let_def)
  have "wf_board (b[nat r := (b ! nat r)[nat c := v]])"
    using assms(1) len set_update_subset_insert [of b "nat r" "(b ! nat r)[nat c := v]"]
    by (auto simp: wf_board_def list_all_iff)
  with w show ?thesis by blast
qed

lemma cellAt_Some_inb: "wf_board b \<Longrightarrow> cellAt b r c = Some p \<Longrightarrow> inb r c"
  by (auto simp: cellAt_def inb_def Let_def wf_board_def list_all_length split: if_splits)

lemma takeCaptured_total:
  assumes wf: "wf_board b" and to: "inb (fst (mv_to mv)) (snd (mv_to mv))"
    and ep: "mv_enPassant mv = Some True \<longrightarrow>
               inb (fst (mv_to mv) + (if pcol moving = White then 1 else -1)) (snd (mv_to mv))"
  shows "\<exists>captured b'. takeCaptured b moving mv = Inr (captured, b') \<and> wf_board b'"
proof -
  obtain tr tc where ft: "mv_to mv = (tr, tc)" by (cases "mv_to mv") auto
  define capRow where "capRow = tr + (if pcol moving = White then 1 else -1)"
  show ?thesis
  proof (cases "mv_enPassant mv = Some True")
    case True
    with ep ft have i: "inb capRow tc" by (simp add: capRow_def)
    then have rd: "readCell b capRow tc = Inr (cellAt b capRow tc)"
      using wf by (intro wf_readCell) (auto simp: inb_def)
    from wf_writeCell[OF wf i] obtain b'
      where wr: "writeCell b capRow tc None = Inr b'" and wf': "wf_board b'" by blast
    have "takeCaptured b moving mv =
            (case readCell b capRow tc of
               Inl e \<Rightarrow> Inl e
             | Inr captured \<Rightarrow>
                 (case writeCell b capRow tc None of
                    Inl e \<Rightarrow> Inl e
                  | Inr b' \<Rightarrow> Inr (captured, b')))"
      using True ft by (simp add: takeCaptured_def Let_def capRow_def cong: sum.case_cong)
    with rd wr wf' show ?thesis by simp
  next
    case False
    from to wf ft have "readCell b tr tc = Inr (cellAt b tr tc)"
      by (intro wf_readCell) (auto simp: inb_def)
    with False wf ft show ?thesis
      by (simp add: takeCaptured_def Let_def)
  qed
qed

lemma moveRook_total:
  assumes wf: "wf_board b"
  shows "\<exists>b'. moveRook b moving mv = Inr b' \<and> wf_board b'"
proof (cases "mv_castle mv")
  case None
  with wf show ?thesis by (simp add: moveRook_def)
next
  case (Some side)
  let ?row = "if pcol moving = White then 7 else (0::int)"
  let ?src = "if side = KingSide then 7 else (0::int)"
  let ?dst = "if side = KingSide then 5 else (3::int)"
  have r: "readCell b ?row ?src = Inr (cellAt b ?row ?src)"
    using wf by (intro wf_readCell) auto
  have "inb ?row ?src" by (simp add: inb_def)
  from wf_writeCell[OF wf this] obtain b1
    where b1: "writeCell b ?row ?src None = Inr b1" and wf1: "wf_board b1" by blast
  have "inb ?row ?dst" by (simp add: inb_def)
  from wf_writeCell[OF wf1 this] obtain b2
    where b2: "writeCell b1 ?row ?dst (cellAt b ?row ?src) = Inr b2" and wf2: "wf_board b2" by blast
  from Some r b1 b2 wf2 show ?thesis
    by (simp add: moveRook_def Let_def)
qed

lemma applyMoveRaw_total:
  assumes wf: "wf_board (board s)"
    and p: "cellAt (board s) (fst (mv_from mv)) (snd (mv_from mv)) = Some p"
    and to: "inb (fst (mv_to mv)) (snd (mv_to mv))"
    and ep: "mv_enPassant mv = Some True \<longrightarrow>
               inb (fst (mv_to mv) + (if pcol p = White then 1 else -1)) (snd (mv_to mv))"
  shows "\<exists>raw. applyMoveRaw s mv = Inr (Some raw) \<and> wf_board (raw_board raw)"
proof -
  obtain fr fc tr tc where ft: "mv_from mv = (fr, fc)" "mv_to mv = (tr, tc)"
    by (cases "mv_from mv"; cases "mv_to mv") auto
  from cellAt_Some_inb[OF wf p] ft have i: "inb fr fc" by simp
  then have rd: "readCell (board s) fr fc = Inr (Some p)"
    using wf_readCell[OF wf, of fr fc] p ft by (simp add: inb_def)
  from wf_writeCell[OF wf i] obtain b1
    where b1: "writeCell (board s) fr fc None = Inr b1" and wf1: "wf_board b1" by blast
  from takeCaptured_total[OF wf1 to ep] obtain captured b2
    where tcap: "takeCaptured b1 p mv = Inr (captured, b2)" and wf2: "wf_board b2" by blast
  let ?placed = "if ptyp p = Pawn \<and> (tr = 0 \<or> tr = 7)
                 then Piece (pcol p) (case mv_promotion mv of Some ty \<Rightarrow> ty | None \<Rightarrow> Queen)
                 else p"
  from to ft have "inb tr tc" by simp
  from wf_writeCell[OF wf2 this] obtain b3
    where b3: "writeCell b2 tr tc (Some ?placed) = Inr b3" and wf3: "wf_board b3" by blast
  from moveRook_total[OF wf3] obtain b4
    where b4: "moveRook b3 p mv = Inr b4" and wf4: "wf_board b4" by blast
  from ft rd b1 tcap b3 b4 wf4 show ?thesis
    by (simp add: applyMoveRaw_def Let_def)
qed

lemma push_range:
  "mv \<in> set (push b p src rr cc) \<Longrightarrow>
     mv_from mv = src \<and> inb (fst (mv_to mv)) (snd (mv_to mv)) \<and> mv_enPassant mv = None"
  by (auto simp: push_def plainMove_def split: if_splits option.splits)

lemma slide_range:
  "mv \<in> set (slide b p src rr cc dr dc) \<Longrightarrow>
     mv_from mv = src \<and> inb (fst (mv_to mv)) (snd (mv_to mv)) \<and> mv_enPassant mv = None"
proof (induction b p src rr cc dr dc rule: slide.induct)
  case (1 b p src rr cc dr dc)
  from "1.prems" have "mv \<in> set (if inb rr cc \<and> (dr \<noteq> 0 \<or> dc \<noteq> 0) then
        (case cellAt b rr cc of
           None \<Rightarrow> plainMove src (rr, cc) # slide b p src (rr + dr) (cc + dc) dr dc
         | Some target \<Rightarrow> if pcol target \<noteq> pcol p then [plainMove src (rr, cc)] else [])
      else [])"
    by (subst (asm) slide.simps) simp
  with "1.IH" show ?case
    by (auto simp: plainMove_def split: if_splits option.splits)
qed

lemma pawnMoves_range:
  "mv \<in> set (pawnMoves s p r c) \<Longrightarrow>
     mv_from mv = (r, c) \<and> inb (fst (mv_to mv)) (snd (mv_to mv))
     \<and> (mv_enPassant mv = Some True \<longrightarrow> fst (mv_to mv) = r + (if pcol p = White then -1 else 1))"
  by (auto simp: pawnMoves_def pawnPushes_def pawnCaptures_def Let_def plainMove_def promoMoves_def split: if_splits option.splits)

lemma kingMoves_range:
  "inb r c \<Longrightarrow> mv \<in> set (kingMoves s p r c) \<Longrightarrow>
     mv_from mv = (r, c) \<and> inb (fst (mv_to mv)) (snd (mv_to mv)) \<and> mv_enPassant mv = None"
  by (auto simp: kingMoves_def plainMove_def inb_def dest!: push_range split: if_splits)

lemma pseudoMoves_range:
  assumes wf: "wf_board (board s)" and pm: "pseudoMoves s r c = Inr pm" and mem: "mv \<in> set pm"
  shows "\<exists>p. cellAt (board s) r c = Some p \<and> mv_from mv = (r, c)
           \<and> inb (fst (mv_to mv)) (snd (mv_to mv))
           \<and> (mv_enPassant mv = Some True \<longrightarrow>
                inb (fst (mv_to mv) + (if pcol p = White then 1 else -1)) (snd (mv_to mv)))"
proof -
  from pm mem obtain p where p: "cellAt (board s) r c = Some p"
    by (auto simp: pseudoMoves_def readCell_def split: sum.splits option.splits if_splits)
  from cellAt_Some_inb[OF wf p] have i: "inb r c" .
  from pm p have rd: "readCell (board s) r c = Inr (Some p)"
    by (auto simp: pseudoMoves_def readCell_def split: if_splits)
  have "mv_from mv = (r, c) \<and> inb (fst (mv_to mv)) (snd (mv_to mv))
      \<and> (mv_enPassant mv = Some True \<longrightarrow> fst (mv_to mv) = r + (if pcol p = White then -1 else 1))"
  proof (cases "ptyp p = Pawn")
    case True
    with pm rd mem have "mv \<in> set (pawnMoves s p r c)" by (simp add: pseudoMoves_def)
    then show ?thesis by (rule pawnMoves_range)
  next
    case np: False
    show ?thesis
    proof (cases "ptyp p = Knight")
      case True
      with pm rd mem np
      have "mv \<in> set (concat (map (\<lambda>(dr, dc). push (board s) p (r, c) (r + dr) (c + dc)) KNIGHT))"
        by (simp add: pseudoMoves_def)
      then show ?thesis by (auto dest!: push_range)
    next
      case nn: False
      show ?thesis
      proof (cases "ptyp p = King")
        case True
        with pm rd mem np nn have "mv \<in> set (kingMoves s p r c)" by (simp add: pseudoMoves_def)
        from kingMoves_range[OF i this] show ?thesis by simp
      next
        case False
        with pm rd mem np nn obtain dirs
          where "mv \<in> set (concat (map (\<lambda>(dr, dc). slide (board s) p (r, c) (r + dr) (c + dc) dr dc) dirs))"
          by (auto simp: pseudoMoves_def Let_def)
        then show ?thesis by (auto dest!: slide_range)
      qed
    qed
  qed
  with p i show ?thesis by (auto simp: inb_def)
qed

lemma filterE_total:
  "(\<And>x. x \<in> set xs \<Longrightarrow> \<exists>keep. f x = Inr keep) \<Longrightarrow> \<exists>ys. filterE f xs = Inr ys"
proof (induction xs)
  case Nil
  show ?case by simp
next
  case (Cons x xs)
  from Cons.prems[of x] obtain keep where k: "f x = Inr keep" by auto
  from Cons.IH Cons.prems obtain ys where "filterE f xs = Inr ys" by auto
  with k show ?case by simp
qed

lemma anyE_total:
  "(\<And>x. x \<in> set xs \<Longrightarrow> \<exists>hit. f x = Inr hit) \<Longrightarrow> \<exists>res. anyE f xs = Inr res"
proof (induction xs)
  case Nil
  show ?case by auto
next
  case (Cons x xs)
  from Cons.prems[of x] obtain hit where k: "f x = Inr hit" by auto
  from Cons.IH Cons.prems obtain res where "anyE f xs = Inr res" by auto
  with k show ?case by (cases hit) auto
qed

lemma legalMovesForSquare_total:
  assumes wf: "wf_board (board s)" and r: "0 \<le> r" "r < 8"
  shows "\<exists>ms. legalMovesForSquare s r c = Inr ms"
proof (cases "cellAt (board s) r c")
  case None
  with wf_readCell[OF wf r, of c] show ?thesis by (simp add: legalMovesForSquare_def)
next
  case (Some p)
  with wf_readCell[OF wf r, of c] have rd: "readCell (board s) r c = Inr (Some p)" by simp
  then obtain pm where pm: "pseudoMoves s r c = Inr pm" by (simp add: pseudoMoves_def)
  have "\<exists>keep. keepsKingSafe s p mv = Inr keep" if "mv \<in> set pm" for mv
  proof -
    from pseudoMoves_range[OF wf pm that] Some
    have "cellAt (board s) (fst (mv_from mv)) (snd (mv_from mv)) = Some p"
      and "inb (fst (mv_to mv)) (snd (mv_to mv))"
      and "mv_enPassant mv = Some True \<longrightarrow>
             inb (fst (mv_to mv) + (if pcol p = White then 1 else -1)) (snd (mv_to mv))"
      by auto
    from applyMoveRaw_total[OF wf this] show ?thesis by (auto simp: keepsKingSafe_def)
  qed
  from filterE_total[of pm "keepsKingSafe s p", OF this] rd pm show ?thesis
    by (simp add: legalMovesForSquare_def)
qed

lemma allSquares_rows: "(r, c) \<in> set allSquares \<Longrightarrow> 0 \<le> r \<and> r < 8"
  by (auto simp: allSquares_def)

lemma squareCanMove_total:
  assumes "wf_board (board s)" and "sq \<in> set allSquares"
  shows "\<exists>hit. squareCanMove s col sq = Inr hit"
proof -
  obtain r c where sq: "sq = (r, c)" by (cases sq)
  with assms(2) have "0 \<le> r" "r < 8" using allSquares_rows by auto
  from legalMovesForSquare_total[OF assms(1) this, of c] sq show ?thesis
    by (auto simp: squareCanMove_def)
qed

lemma hasAnyLegalMove_total:
  assumes "wf_board (board s)"
  shows "\<exists>res. hasAnyLegalMove s col = Inr res"
proof -
  have a: "\<exists>res. anyE (squareCanMove s col) allSquares = Inr res"
    using squareCanMove_total[OF assms] by (intro anyE_total)
  have "wf_board (board (s\<lparr>turn := col\<rparr>))" using assms by simp
  then have b: "\<exists>res. anyE (squareCanMove (s\<lparr>turn := col\<rparr>) col) allSquares = Inr res"
    using squareCanMove_total by (intro anyE_total)
  from a b show ?thesis by (simp add: hasAnyLegalMove_def Let_def)
qed

lemma resultStatus_total:
  assumes "wf_board (board n)"
  shows "\<exists>n'. resultStatus n = Inr n'"
proof -
  from hasAnyLegalMove_total[OF assms] obtain res
    where "hasAnyLegalMove n (turn n) = Inr res" by blast
  then show ?thesis by (simp add: resultStatus_def Let_def)
qed

subsection \<open>What a submission returns\<close>

lemma legal_applies:
  assumes wf: "wf_board (board s)" and legal: "legalMovesForSquare s r c = Inr legal"
    and mem: "ch \<in> set legal" and p: "cellAt (board s) r c = Some p"
  shows "\<exists>raw. applyMoveRaw s ch = Inr (Some raw) \<and> wf_board (raw_board raw)
           \<and> \<not> isInCheck (raw_board raw) (pcol p)"
proof -
  from legal p obtain pm where pm: "pseudoMoves s r c = Inr pm"
    and f: "filterE (keepsKingSafe s p) pm = Inr legal"
    by (auto simp: legalMovesForSquare_def readCell_def split: sum.splits option.splits if_splits)
  from filterE_sound[OF f mem] have m: "ch \<in> set pm" and k: "keepsKingSafe s p ch = Inr True"
    by auto
  from pseudoMoves_range[OF wf pm m] p
  have "cellAt (board s) (fst (mv_from ch)) (snd (mv_from ch)) = Some p"
    and "inb (fst (mv_to ch)) (snd (mv_to ch))"
    and "mv_enPassant ch = Some True \<longrightarrow>
           inb (fst (mv_to ch) + (if pcol p = White then 1 else -1)) (snd (mv_to ch))"
    by auto
  from applyMoveRaw_total[OF wf this] obtain raw
    where raw: "applyMoveRaw s ch = Inr (Some raw)" and wf': "wf_board (raw_board raw)" by blast
  with k have "\<not> isInCheck (raw_board raw) (pcol p)" by (simp add: keepsKingSafe_def)
  with raw wf' show ?thesis by blast
qed

lemma makeMove_outcome:
  assumes wf: "wf_board (board s)" and play: "status s = Playing"
    and p: "cellAt (board s) (fst src) (snd src) = Some moving" and t: "pcol moving = turn s"
    and legal: "legalMovesForSquare s (fst src) (snd src) = Inr legal"
  shows "case chooseMove legal src dst promotion of
           None \<Rightarrow> makeMove s src dst promotion = Inr None
         | Some ch \<Rightarrow> acceptedWith s src dst promotion ch"
proof -
  from cellAt_Some_inb[OF wf p] have "0 \<le> fst src" "fst src < 8" by (auto simp: inb_def)
  from wf_readCell[OF wf this] p
  have rd: "readCell (board s) (fst src) (snd src) = Inr (Some moving)" by simp
  show ?thesis
  proof (cases "chooseMove legal src dst promotion")
    case None
    with play rd t legal show ?thesis by (simp add: makeMove_def)
  next
    case (Some ch)
    from chooseMove_mem[OF Some] have mem: "ch \<in> set legal" by simp
    from legal_applies[OF wf legal mem p] obtain raw
      where raw: "applyMoveRaw s ch = Inr (Some raw)" and wf': "wf_board (raw_board raw)"
        and safe: "\<not> isInCheck (raw_board raw) (pcol moving)" by blast
    have "wf_board (board (nextSnapshot s src dst moving ch raw))"
      using wf' by (simp add: nextSnapshot_def Let_def)
    from resultStatus_total[OF this] obtain s'
      where rs: "resultStatus (nextSnapshot s src dst moving ch raw) = Inr s'" by blast
    with play rd t legal Some raw safe
    have m: "makeMove s src dst promotion = Inr (Some s')" by (simp add: makeMove_def)
    from resultStatus_fields[OF rs]
    have "board s' = raw_board raw \<and> turn s' = raw_nextTurn raw
        \<and> castling s' = raw_castling raw \<and> enPassant s' = raw_enPassant raw"
      by (simp add: nextSnapshot_def Let_def)
    with m raw Some show ?thesis by (simp add: acceptedWith_def)
  qed
qed

subsection \<open>Snapshots reached by play\<close>

lemma playedFrom_first:
  assumes "playedFrom t u" and "makeMove s src dst promotion = Inr (Some t)"
  shows "playedFrom s u"
  using assms
proof (induction rule: playedFrom.induct)
  case (start t)
  then show ?case by (rule playedFrom.move [OF playedFrom.start])
next
  case (move t v src' dst' promotion' u)
  from move.IH[OF move.prems] move.hyps(2) show ?case by (rule playedFrom.move)
qed

lemma playMoves_played: "playMoves s ms = Inr (Some s') \<Longrightarrow> playedFrom s s'"
proof (induction ms arbitrary: s)
  case Nil
  then show ?case by (simp add: playedFrom.start)
next
  case (Cons m ms)
  from Cons.prems obtain t where m: "makeMove s (fst m) (snd m) None = Inr (Some t)"
    and r: "playMoves t ms = Inr (Some s')"
    by (auto split: sum.splits option.splits)
  from Cons.IH[OF r] m show ?case by (rule playedFrom_first)
qed

lemma numberToString_digit:
  "0 \<le> n \<Longrightarrow> n < 10 \<Longrightarrow> numberToString n = [''0123456789'' ! nat n]"
  by (simp add: numberToString_def digitsOf.simps)

lemma rank_digit_inj:
  assumes "0 \<le> r" "r < 8" "0 \<le> r'" "r' < 8"
    and "''0123456789'' ! nat (8 - r) = ''0123456789'' ! nat (8 - r')"
  shows "r = r'"
proof -
  have d: "distinct ''0123456789''" by simp
  from assms have "nat (8 - r) < length ''0123456789''" "nat (8 - r') < length ''0123456789''"
    by simp_all
  with d assms(5) have "nat (8 - r) = nat (8 - r')"
    by (simp only: nth_eq_iff_index_eq)
  with assms show ?thesis by simp
qed

lemma sqName_row:
  assumes "inb r c" and "inb r' c'" and "sqName r c = sqName r' c'"
  shows "r = r'"
proof -
  from assms(1,2) have b: "0 \<le> r" "r < 8" "0 \<le> r'" "r' < 8" "0 \<le> c" "c < 8" "0 \<le> c'" "c' < 8"
    by (auto simp: inb_def)
  then have "sqName r c = [FILES ! nat c, ''0123456789'' ! nat (8 - r)]"
        and "sqName r' c' = [FILES ! nat c', ''0123456789'' ! nat (8 - r')]"
    by (simp_all add: sqName_def numberToString_digit)
  with assms(3) have "''0123456789'' ! nat (8 - r) = ''0123456789'' ! nat (8 - r')" by simp
  with b show ?thesis by (intro rank_digit_inj)
qed

lemma epRankOk_row:
  assumes "epRankOk (Some (sqName r c))" and "inb r c"
  shows "r = 5 \<or> r = 2"
proof -
  from assms(1) obtain c' where c': "c' \<in> {0, 1, 2, 3, 4, 5, 6, 7::int}"
    and e: "sqName r c = sqName 5 c' \<or> sqName r c = sqName 2 c'"
    by (auto simp: epRankOk_def)
  from c' have "inb 5 c'" "inb 2 c'" by (auto simp: inb_def)
  with e assms(2) show ?thesis by (auto dest: sqName_row)
qed

lemma takeCaptured_cell:
  assumes "takeCaptured b moving mv = Inr (captured, b')"
    and "mv_enPassant mv = Some True \<longrightarrow>
           (r', c') \<noteq> (fst (mv_to mv) + (if pcol moving = White then 1 else -1), snd (mv_to mv))"
  shows "cellAt b' r' c' = cellAt b r' c'"
proof (cases "mv_enPassant mv = Some True")
  case True
  obtain tr tc where ft: "mv_to mv = (tr, tc)" by (cases "mv_to mv") auto
  define capRow where "capRow = tr + (if pcol moving = White then 1 else -1)"
  have "takeCaptured b moving mv =
          (case readCell b capRow tc of
             Inl e \<Rightarrow> Inl e
           | Inr captured \<Rightarrow>
               (case writeCell b capRow tc None of
                  Inl e \<Rightarrow> Inl e
                | Inr b' \<Rightarrow> Inr (captured, b')))"
    using True ft by (simp add: takeCaptured_def Let_def capRow_def cong: sum.case_cong)
  with assms(1) have w: "writeCell b capRow tc None = Inr b'"
    by (auto split: sum.splits)
  from assms(2) True ft have "(r', c') \<noteq> (capRow, tc)" by (simp add: capRow_def)
  with cellAt_writeCell[OF w, of r' c'] show ?thesis by auto
next
  case False
  with assms(1) have "b' = b"
    by (auto simp: takeCaptured_def Let_def split: prod.splits sum.splits)
  then show ?thesis by simp
qed

lemma moveRook_cell:
  assumes "moveRook b moving mv = Inr b'"
    and "mv_castle mv \<noteq> None \<longrightarrow> r' \<noteq> (if pcol moving = White then 7 else 0)"
  shows "cellAt b' r' c' = cellAt b r' c'"
proof (cases "mv_castle mv")
  case None
  with assms(1) show ?thesis by (simp add: moveRook_def)
next
  case (Some side)
  define row :: int where "row = (if pcol moving = White then 7 else 0)"
  from assms(2) Some have ne: "r' \<noteq> row" by (simp add: row_def)
  from assms(1) Some obtain rook b1 src dst
    where b1: "writeCell b row src None = Inr b1" and b2: "writeCell b1 row dst rook = Inr b'"
    by (auto simp: moveRook_def Let_def row_def split: sum.splits)
  from cellAt_writeCell[OF b2, of r' c'] cellAt_writeCell[OF b1, of r' c'] ne
  show ?thesis by simp
qed

lemma applyMoveRaw_cell:
  assumes raw: "applyMoveRaw s mv = Inr (Some raw)"
    and nf: "(r', c') \<noteq> mv_from mv" and nt: "(r', c') \<noteq> mv_to mv"
    and ne: "mv_enPassant mv = Some True \<longrightarrow>
           (r', c') \<noteq> (fst (mv_to mv) + (if pcol (raw_moving raw) = White then 1 else -1),
                       snd (mv_to mv))"
    and nc: "mv_castle mv \<noteq> None \<longrightarrow> r' \<noteq> (if pcol (raw_moving raw) = White then 7 else 0)"
  shows "cellAt (raw_board raw) r' c' = cellAt (board s) r' c'"
proof -
  obtain fr fc tr tc where ft: "mv_from mv = (fr, fc)" "mv_to mv = (tr, tc)"
    by (cases "mv_from mv"; cases "mv_to mv") auto
  from raw ft obtain moving b1 captured b2 placed b3 b4 where
        b1: "writeCell (board s) fr fc None = Inr b1"
    and tcap: "takeCaptured b1 moving mv = Inr (captured, b2)"
    and b3: "writeCell b2 tr tc placed = Inr b3"
    and b4: "moveRook b3 moving mv = Inr b4"
    and rm: "raw_moving raw = moving" and rb: "raw_board raw = b4"
    by (auto simp: applyMoveRaw_def Let_def split: sum.splits option.splits prod.splits)
  from moveRook_cell[OF b4, of r' c'] nc rm have "cellAt b4 r' c' = cellAt b3 r' c'" by simp
  also from cellAt_writeCell[OF b3, of r' c'] nt ft have "\<dots> = cellAt b2 r' c'" by auto
  also from takeCaptured_cell[OF tcap, of r' c'] ne rm have "\<dots> = cellAt b1 r' c'" by simp
  also from cellAt_writeCell[OF b1, of r' c'] nf ft have "\<dots> = cellAt (board s) r' c'" by auto
  finally show ?thesis by (simp add: rb)
qed

lemma pawnMoves_shape:
  assumes "mv \<in> set (pawnMoves s p r c)"
  shows "mv_castle mv = None
       \<and> (mv_enPassant mv = Some True \<longrightarrow>
            enPassant s = Some (sqName (fst (mv_to mv)) (snd (mv_to mv))))
       \<and> (\<bar>fst (mv_to mv) - r\<bar> = 2 \<longrightarrow>
            (if pcol p = White then r = 6 \<and> fst (mv_to mv) = 4 else r = 1 \<and> fst (mv_to mv) = 3))"
  using assms
  by (auto simp: pawnMoves_def pawnPushes_def pawnCaptures_def Let_def plainMove_def promoMoves_def split: if_splits option.splits)

lemma push_plain:
  "mv \<in> set (push b p src rr cc) \<Longrightarrow> mv_castle mv = None \<and> mv_enPassant mv = None"
  by (auto simp: push_def plainMove_def split: if_splits option.splits)

lemma slide_plain:
  "mv \<in> set (slide b p src rr cc dr dc) \<Longrightarrow> mv_castle mv = None \<and> mv_enPassant mv = None"
proof (induction b p src rr cc dr dc rule: slide.induct)
  case (1 b p src rr cc dr dc)
  from "1.prems" have "mv \<in> set (if inb rr cc \<and> (dr \<noteq> 0 \<or> dc \<noteq> 0) then
        (case cellAt b rr cc of
           None \<Rightarrow> plainMove src (rr, cc) # slide b p src (rr + dr) (cc + dc) dr dc
         | Some target \<Rightarrow> if pcol target \<noteq> pcol p then [plainMove src (rr, cc)] else [])
      else [])"
    by (subst (asm) slide.simps) simp
  with "1.IH" show ?case
    by (auto simp: plainMove_def split: if_splits option.splits)
qed

lemma kingMoves_plain:
  "mv \<in> set (kingMoves s p r c) \<Longrightarrow> mv_enPassant mv = None"
  by (auto simp: kingMoves_def plainMove_def dest!: push_plain split: if_splits)

lemma pseudoMoves_shape:
  assumes pm: "pseudoMoves s r c = Inr pm" and mem: "mv \<in> set pm"
    and p: "cellAt (board s) r c = Some p"
  shows "(mv_castle mv \<noteq> None \<longrightarrow> ptyp p = King)
       \<and> (mv_enPassant mv = Some True \<longrightarrow>
            enPassant s = Some (sqName (fst (mv_to mv)) (snd (mv_to mv))))
       \<and> (ptyp p = Pawn \<and> \<bar>fst (mv_to mv) - r\<bar> = 2 \<longrightarrow>
            (if pcol p = White then r = 6 \<and> fst (mv_to mv) = 4 else r = 1 \<and> fst (mv_to mv) = 3))"
proof -
  from pm p have rd: "readCell (board s) r c = Inr (Some p)"
    by (auto simp: pseudoMoves_def readCell_def split: if_splits)
  show ?thesis
  proof (cases "ptyp p = Pawn")
    case True
    with pm rd mem have "mv \<in> set (pawnMoves s p r c)" by (simp add: pseudoMoves_def)
    from pawnMoves_shape[OF this] show ?thesis by simp
  next
    case np: False
    show ?thesis
    proof (cases "ptyp p = Knight")
      case True
      with pm rd mem np
      have "mv \<in> set (concat (map (\<lambda>(dr, dc). push (board s) p (r, c) (r + dr) (c + dc)) KNIGHT))"
        by (simp add: pseudoMoves_def)
      with np show ?thesis by (auto dest!: push_plain)
    next
      case nn: False
      show ?thesis
      proof (cases "ptyp p = King")
        case True
        with pm rd mem np nn have "mv \<in> set (kingMoves s p r c)" by (simp add: pseudoMoves_def)
        from kingMoves_plain[OF this] True show ?thesis by simp
      next
        case False
        with pm rd mem np nn obtain dirs
          where "mv \<in> set (concat (map (\<lambda>(dr, dc). slide (board s) p (r, c) (r + dr) (c + dc) dr dc) dirs))"
          by (auto simp: pseudoMoves_def Let_def)
        with np show ?thesis by (auto dest!: slide_plain)
      qed
    qed
  qed
qed

lemma applyMoveRaw_enPassant:
  assumes "applyMoveRaw s mv = Inr (Some raw)"
  shows "raw_enPassant raw =
           (if ptyp (raw_moving raw) = Pawn \<and> \<bar>fst (mv_to mv) - fst (mv_from mv)\<bar> = 2
            then Some (sqName ((fst (mv_from mv) + fst (mv_to mv)) div 2) (snd (mv_from mv)))
            else None)"
  using assms
  by (auto simp: applyMoveRaw_def Let_def split: prod.splits sum.splits option.splits)

lemma corner_kept:
  assumes raw: "applyMoveRaw s mv = Inr (Some raw)"
    and ep: "epRankOk (enPassant s)"
    and to: "inb (fst (mv_to mv)) (snd (mv_to mv))"
    and shape_ep: "mv_enPassant mv = Some True \<longrightarrow>
            enPassant s = Some (sqName (fst (mv_to mv)) (snd (mv_to mv)))"
    and shape_castle: "mv_castle mv \<noteq> None \<longrightarrow> ptyp (raw_moving raw) = King"
    and rook: "cellAt (board s) cr cc = Some (Piece col Rook)"
    and corner: "cr = (if col = White then 7 else 0)"
    and notking: "\<not> (ptyp (raw_moving raw) = King \<and> pcol (raw_moving raw) = col)"
    and notfrom: "\<not> (ptyp (raw_moving raw) = Rook \<and> mv_from mv = (cr, cc))"
    and nottaken: "\<not> (rookTaken (raw_captured raw) \<and> mv_to mv = (cr, cc))"
  shows "cellAt (raw_board raw) cr cc = Some (Piece col Rook)"
proof -
  from corner have cr: "cr = 7 \<or> cr = 0" by simp
  have eprow: "fst (mv_to mv) = 5 \<or> fst (mv_to mv) = 2" if "mv_enPassant mv = Some True"
  proof -
    from that shape_ep have "enPassant s = Some (sqName (fst (mv_to mv)) (snd (mv_to mv)))" by simp
    with ep have "epRankOk (Some (sqName (fst (mv_to mv)) (snd (mv_to mv))))" by simp
    from epRankOk_row[OF this to] show ?thesis .
  qed
  have nf: "(cr, cc) \<noteq> mv_from mv"
  proof
    assume e: "(cr, cc) = mv_from mv"
    then have f: "mv_from mv = (cr, cc)" by simp
    with applyMoveRaw_moving[OF raw] have "cellAt (board s) cr cc = Some (raw_moving raw)" by simp
    with rook have "raw_moving raw = Piece col Rook" by simp
    with f notfrom show False by simp
  qed
  have nt: "(cr, cc) \<noteq> mv_to mv"
  proof
    assume "(cr, cc) = mv_to mv"
    then have e: "mv_to mv = (cr, cc)" by simp
    show False
    proof (cases "mv_enPassant mv = Some True")
      case True
      from eprow[OF True] e cr show False by auto
    next
      case False
      with applyMoveRaw_captured[OF raw] nf e
      have "raw_captured raw = cellAt (board s) cr cc" by auto
      with rook have "rookTaken (raw_captured raw)" by (simp add: rookTaken_def)
      with e nottaken show False by simp
    qed
  qed
  have ne: "mv_enPassant mv = Some True \<longrightarrow>
           (cr, cc) \<noteq> (fst (mv_to mv) + (if pcol (raw_moving raw) = White then 1 else -1),
                       snd (mv_to mv))"
    using eprow cr by auto
  have nc: "mv_castle mv \<noteq> None \<longrightarrow> cr \<noteq> (if pcol (raw_moving raw) = White then 7 else 0)"
  proof
    assume "mv_castle mv \<noteq> None"
    with shape_castle notking have "pcol (raw_moving raw) \<noteq> col" by auto
    with corner show "cr \<noteq> (if pcol (raw_moving raw) = White then 7 else 0)"
      by (cases col; cases "pcol (raw_moving raw)") auto
  qed
  from applyMoveRaw_cell[OF raw nf nt ne nc] rook show ?thesis by simp
qed

lemma makeMove_preserves_invariant:
  assumes m: "makeMove s src dst promotion = Inr (Some s')" and inv: "playInvariant s"
  shows "playInvariant s'"
proof -
  from inv have wf: "wf_board (board s)" and ep: "epRankOk (enPassant s)"
    and home: "rooksAtHome s"
    by (simp_all add: playInvariant_def)
  from makeMove_SomeD[OF m] obtain moving legal chosen raw
    where p: "cellAt (board s) (fst src) (snd src) = Some moving"
      and legal: "legalMovesForSquare s (fst src) (snd src) = Inr legal"
      and ch: "chooseMove legal src dst promotion = Some chosen"
      and raw: "applyMoveRaw s chosen = Inr (Some raw)"
      and rs: "resultStatus (nextSnapshot s src dst moving chosen raw) = Inr s'"
    by blast
  from chooseMove_mem[OF ch] have mem: "chosen \<in> set legal" by simp
  from legal_from[OF legal mem] have "from": "mv_from chosen = src" by simp
  from applyMoveRaw_moving[OF raw] p "from" have rm: "raw_moving raw = moving" by simp
  from legal p obtain pm where pm: "pseudoMoves s (fst src) (snd src) = Inr pm"
    and f: "filterE (keepsKingSafe s moving) pm = Inr legal"
    by (auto simp: legalMovesForSquare_def readCell_def split: sum.splits option.splits if_splits)
  from filterE_sound[OF f mem] have pmem: "chosen \<in> set pm" by simp
  from pseudoMoves_range[OF wf pm pmem]
  have to: "inb (fst (mv_to chosen)) (snd (mv_to chosen))" by blast
  from cellAt_Some_inb[OF wf p] have src: "inb (fst src) (snd src)" .
  from pseudoMoves_shape[OF pm pmem p]
  have sh_castle: "mv_castle chosen \<noteq> None \<longrightarrow> ptyp moving = King"
    and sh_ep: "mv_enPassant chosen = Some True \<longrightarrow>
            enPassant s = Some (sqName (fst (mv_to chosen)) (snd (mv_to chosen)))"
    and sh_two: "ptyp moving = Pawn \<and> \<bar>fst (mv_to chosen) - fst src\<bar> = 2 \<longrightarrow>
            (if pcol moving = White then fst src = 6 \<and> fst (mv_to chosen) = 4
             else fst src = 1 \<and> fst (mv_to chosen) = 3)"
    by simp_all
  from resultStatus_fields[OF rs]
  have b: "board s' = raw_board raw" and cs: "castling s' = raw_castling raw"
    and e: "enPassant s' = raw_enPassant raw"
    by (simp_all add: nextSnapshot_def Let_def)
  from legal_applies[OF wf legal mem p] raw have wf': "wf_board (board s')"
    unfolding b by auto
  have ep': "epRankOk (enPassant s')"
  proof (cases "ptyp moving = Pawn \<and> \<bar>fst (mv_to chosen) - fst src\<bar> = 2")
    case False
    with applyMoveRaw_enPassant[OF raw] rm "from" show ?thesis
      unfolding e by (auto simp: epRankOk_def)
  next
    case True
    with sh_two have "(fst src + fst (mv_to chosen)) div 2 = 5 \<or> (fst src + fst (mv_to chosen)) div 2 = 2"
      by (auto split: if_splits)
    moreover from src have "snd src \<in> {0, 1, 2, 3, 4, 5, 6, 7}" by (auto simp: inb_def)
    moreover from True applyMoveRaw_enPassant[OF raw] rm "from"
    have "enPassant s' = Some (sqName ((fst src + fst (mv_to chosen)) div 2) (snd src))"
      unfolding e by simp
    ultimately show ?thesis by (auto simp: epRankOk_def)
  qed
  have kept: "cellAt (board s') cr cc = Some (Piece col Rook)"
    if "cellAt (board s) cr cc = Some (Piece col Rook)" and "cr = (if col = White then 7 else 0)"
      and "\<not> (ptyp moving = King \<and> pcol moving = col)"
      and "\<not> (ptyp moving = Rook \<and> mv_from chosen = (cr, cc))"
      and "\<not> (rookTaken (raw_captured raw) \<and> mv_to chosen = (cr, cc))"
    for cr cc col
    unfolding b using that rm sh_castle
    by (intro corner_kept[OF raw ep to sh_ep]) simp_all
  from applyMoveRaw_fields[OF raw] rm
  have cs': "castling s' = updateCastling (castling s) moving (raw_captured raw) chosen"
    unfolding cs by simp
  have "rooksAtHome s'"
    unfolding rooksAtHome_def
  proof (intro conjI impI)
    assume "wk (castling s')"
    with home show "cellAt (board s') 7 7 = Some (Piece White Rook)"
      unfolding cs' by (intro kept) (auto simp: updateCastling_rights rooksAtHome_def)
  next
    assume "wq (castling s')"
    with home show "cellAt (board s') 7 0 = Some (Piece White Rook)"
      unfolding cs' by (intro kept) (auto simp: updateCastling_rights rooksAtHome_def)
  next
    assume "bk (castling s')"
    with home show "cellAt (board s') 0 7 = Some (Piece Black Rook)"
      unfolding cs' by (intro kept) (auto simp: updateCastling_rights rooksAtHome_def)
  next
    assume "bq (castling s')"
    with home show "cellAt (board s') 0 0 = Some (Piece Black Rook)"
      unfolding cs' by (intro kept) (auto simp: updateCastling_rights rooksAtHome_def)
  qed
  with wf' ep' show ?thesis by (simp add: playInvariant_def)
qed

lemma initial_invariant: "playInvariant createInitialSnapshot"
  by (simp add: playInvariant_def createInitialSnapshot_def Let_def wf_board_def initialBoard_def
        backRank_def epRankOk_def rooksAtHome_def initialCastling_def cellAt_def)

lemma played_invariant:
  assumes "playedFrom s s'" and "playInvariant s"
  shows "playInvariant s'"
  using assms
proof (induction rule: playedFrom.induct)
  case (start s)
  then show ?case .
next
  case (move s t src dst promotion u)
  from move.IH[OF move.prems] have "playInvariant t" .
  with move.hyps(2) show ?case by (rule makeMove_preserves_invariant)
qed

subsection \<open>Captures on a corner\<close>

text \<open>
  A candidate that is neither an en-passant capture nor a castling move goes to an empty
  square or to a square that holds a piece of the other colour; a castling move goes to
  column 6 or 2.
\<close>

lemma push_target:
  "mv \<in> set (push b p src rr cc) \<Longrightarrow>
     cellAt b (fst (mv_to mv)) (snd (mv_to mv)) = Some t \<Longrightarrow> pcol t \<noteq> pcol p"
  by (auto simp: push_def plainMove_def split: if_splits option.splits)

lemma slide_target:
  "mv \<in> set (slide b p src rr cc dr dc) \<Longrightarrow>
     cellAt b (fst (mv_to mv)) (snd (mv_to mv)) = Some t \<Longrightarrow> pcol t \<noteq> pcol p"
proof (induction b p src rr cc dr dc rule: slide.induct)
  case (1 b p src rr cc dr dc)
  from "1.prems"(1) have "mv \<in> set (if inb rr cc \<and> (dr \<noteq> 0 \<or> dc \<noteq> 0) then
        (case cellAt b rr cc of
           None \<Rightarrow> plainMove src (rr, cc) # slide b p src (rr + dr) (cc + dc) dr dc
         | Some target \<Rightarrow> if pcol target \<noteq> pcol p then [plainMove src (rr, cc)] else [])
      else [])"
    by (subst (asm) slide.simps) simp
  with "1.IH" "1.prems"(2) show ?case
    by (auto simp: plainMove_def split: if_splits option.splits)
qed

lemma pawnMoves_target:
  "mv \<in> set (pawnMoves s p r c) \<Longrightarrow> mv_enPassant mv \<noteq> Some True \<Longrightarrow>
     cellAt (board s) (fst (mv_to mv)) (snd (mv_to mv)) = Some t \<Longrightarrow> pcol t \<noteq> pcol p"
  by (auto simp: pawnMoves_def pawnPushes_def pawnCaptures_def Let_def plainMove_def
        promoMoves_def split: if_splits option.splits)

lemma kingMoves_target:
  "mv \<in> set (kingMoves s p r c) \<Longrightarrow>
     cellAt (board s) (fst (mv_to mv)) (snd (mv_to mv)) = Some t \<Longrightarrow>
     pcol t \<noteq> pcol p \<or> snd (mv_to mv) = 6 \<or> snd (mv_to mv) = 2"
  by (auto simp: kingMoves_def plainMove_def dest: push_target split: if_splits)

lemma pseudoMoves_target:
  assumes pm: "pseudoMoves s r c = Inr pm" and mem: "mv \<in> set pm"
    and p: "cellAt (board s) r c = Some p"
    and ne: "mv_enPassant mv \<noteq> Some True"
    and t: "cellAt (board s) (fst (mv_to mv)) (snd (mv_to mv)) = Some t"
  shows "pcol t \<noteq> pcol p \<or> snd (mv_to mv) = 6 \<or> snd (mv_to mv) = 2"
proof -
  from pm p have rd: "readCell (board s) r c = Inr (Some p)"
    by (auto simp: pseudoMoves_def readCell_def split: if_splits)
  show ?thesis
  proof (cases "ptyp p = Pawn")
    case True
    with pm rd mem have "mv \<in> set (pawnMoves s p r c)" by (simp add: pseudoMoves_def)
    from pawnMoves_target[OF this ne t] show ?thesis by simp
  next
    case np: False
    show ?thesis
    proof (cases "ptyp p = Knight")
      case True
      with pm rd mem np
      have "mv \<in> set (concat (map (\<lambda>(dr, dc). push (board s) p (r, c) (r + dr) (c + dc)) KNIGHT))"
        by (simp add: pseudoMoves_def)
      with t show ?thesis by (auto dest: push_target)
    next
      case nn: False
      show ?thesis
      proof (cases "ptyp p = King")
        case True
        with pm rd mem np nn have "mv \<in> set (kingMoves s p r c)" by (simp add: pseudoMoves_def)
        from kingMoves_target[OF this t] show ?thesis .
      next
        case False
        with pm rd mem np nn obtain dirs
          where "mv \<in> set (concat (map (\<lambda>(dr, dc). slide (board s) p (r, c) (r + dr) (c + dc) dr dc) dirs))"
          by (auto simp: pseudoMoves_def Let_def)
        with t show ?thesis by (auto dest: slide_target)
      qed
    qed
  qed
qed

text \<open>
  What an applied move to column 0 or 7 does to a piece \<open>q\<close> on its destination: unless
  the candidate is an en-passant capture, \<open>q\<close> is the piece the applier captured.
\<close>

lemma makeMove_cornerD:
  assumes m: "makeMove s src dst promotion = Inr (Some s')"
    and c: "cellAt (board s) (fst dst) (snd dst) = Some q"
    and col: "snd dst = 0 \<or> snd dst = 7"
  shows "\<exists>moving chosen captured.
           mv_to chosen = dst
         \<and> castling s' = updateCastling (castling s) moving captured chosen
         \<and> (rec_enPassant (last (history s')) = Some True \<longleftrightarrow> mv_enPassant chosen = Some True)
         \<and> (mv_enPassant chosen \<noteq> Some True \<longrightarrow> captured = Some q)
         \<and> (mv_enPassant chosen = Some True \<longrightarrow> enPassant s = Some (sqName (fst dst) (snd dst)))
         \<and> (wf_board (board s) \<longrightarrow> inb (fst dst) (snd dst))"
proof -
  from makeMove_SomeD[OF m] obtain moving legal chosen raw
    where p: "cellAt (board s) (fst src) (snd src) = Some moving"
      and legal: "legalMovesForSquare s (fst src) (snd src) = Inr legal"
      and ch: "chooseMove legal src dst promotion = Some chosen"
      and raw: "applyMoveRaw s chosen = Inr (Some raw)"
      and rs: "resultStatus (nextSnapshot s src dst moving chosen raw) = Inr s'"
    by blast
  from chooseMove_mem[OF ch] have mem: "chosen \<in> set legal" and to: "mv_to chosen = dst" by auto
  from legal_from[OF legal mem] have "from": "mv_from chosen = src" by simp
  from applyMoveRaw_moving[OF raw] p "from" have rm: "raw_moving raw = moving" by simp
  from legal p obtain pm where pm: "pseudoMoves s (fst src) (snd src) = Inr pm"
    and f: "filterE (keepsKingSafe s moving) pm = Inr legal"
    by (auto simp: legalMovesForSquare_def readCell_def split: sum.splits option.splits if_splits)
  from filterE_sound[OF f mem] have pmem: "chosen \<in> set pm" by simp
  have inb: "wf_board (board s) \<longrightarrow> inb (fst dst) (snd dst)"
    using pseudoMoves_range[OF _ pm pmem] to by auto
  from pseudoMoves_shape[OF pm pmem p] to
  have sh_ep: "mv_enPassant chosen = Some True \<longrightarrow>
            enPassant s = Some (sqName (fst dst) (snd dst))"
    by simp
  from resultStatus_fields[OF rs]
  have cs: "castling s' = raw_castling raw"
    and he: "rec_enPassant (last (history s')) = Some True \<longleftrightarrow> mv_enPassant chosen = Some True"
    by (simp_all add: nextSnapshot_def Let_def)
  from applyMoveRaw_fields[OF raw] rm cs
  have cs': "castling s' = updateCastling (castling s) moving (raw_captured raw) chosen"
    by simp
  have cap: "raw_captured raw = Some q" if ne: "mv_enPassant chosen \<noteq> Some True"
  proof -
    from c to have t: "cellAt (board s) (fst (mv_to chosen)) (snd (mv_to chosen)) = Some q"
      by simp
    from pseudoMoves_target[OF pm pmem p ne t] to col have "pcol q \<noteq> pcol moving" by auto
    with p c have "dst \<noteq> src" by auto
    with applyMoveRaw_captured[OF raw] ne to "from" c show ?thesis by simp
  qed
  from to cs' he cap sh_ep inb show ?thesis by blast
qed

text \<open>
  C2 (as amended). Let \<open>makeMove\<close> apply a move to a corner square on which a piece
  \<open>q\<close> stands. The castling right of that corner is false in the new snapshot when
  \<open>q\<close> is a rook (of either colour) and the move record is not that of an en-passant
  capture, on any snapshot; and for a piece \<open>q\<close> of any type when the snapshot was
  reached from the initial snapshot by applied moves, where a right that is set finds its
  rook on the corner and no en-passant capture ends on a corner. The test of the source is
  on the type of the piece the applier captured, \<open>captured?.t === "r"\<close>; for an
  en-passant candidate that piece is the one beside the destination, not the one on it.
\<close>

theorem corner_capture_clears_right:
  assumes m: "makeMove s src dst promotion = Inr (Some s')"
      and c: "cellAt (board s) (fst dst) (snd dst) = Some q"
      and d: "(ptyp q = Rook \<and> rec_enPassant (last (history s')) \<noteq> Some True)
              \<or> playedFrom createInitialSnapshot s"
  shows "(dst = (7, 7) \<longrightarrow> \<not> wk (castling s')) \<and> (dst = (7, 0) \<longrightarrow> \<not> wq (castling s'))
       \<and> (dst = (0, 7) \<longrightarrow> \<not> bk (castling s')) \<and> (dst = (0, 0) \<longrightarrow> \<not> bq (castling s'))"
proof (cases "snd dst = 0 \<or> snd dst = 7")
  case False
  then show ?thesis by auto
next
  case edge: True
  from makeMove_cornerD[OF m c edge] obtain moving chosen captured
    where to: "mv_to chosen = dst"
      and cs: "castling s' = updateCastling (castling s) moving captured chosen"
      and he: "rec_enPassant (last (history s')) = Some True \<longleftrightarrow> mv_enPassant chosen = Some True"
      and cap: "mv_enPassant chosen \<noteq> Some True \<longrightarrow> captured = Some q"
      and sh_ep: "mv_enPassant chosen = Some True \<longrightarrow>
                    enPassant s = Some (sqName (fst dst) (snd dst))"
      and inb: "wf_board (board s) \<longrightarrow> inb (fst dst) (snd dst)"
    by blast
  from d show ?thesis
  proof
    assume "ptyp q = Rook \<and> rec_enPassant (last (history s')) \<noteq> Some True"
    with he cap have "rookTaken captured" by (simp add: rookTaken_def)
    with to show ?thesis
      unfolding cs by (simp add: updateCastling_rights)
  next
    assume "playedFrom createInitialSnapshot s"
    from played_invariant[OF this initial_invariant]
    have wf: "wf_board (board s)" and ep: "epRankOk (enPassant s)" and home: "rooksAtHome s"
      by (simp_all add: playInvariant_def)
    have taken: "rookTaken captured"
      if rk: "cellAt (board s) (fst dst) (snd dst) = Some (Piece col Rook)"
        and row: "fst dst = 7 \<or> fst dst = 0" for col
    proof -
      have nep: "mv_enPassant chosen \<noteq> Some True"
      proof
        assume "mv_enPassant chosen = Some True"
        with sh_ep ep have "epRankOk (Some (sqName (fst dst) (snd dst)))" by simp
        from epRankOk_row[OF this] inb wf row show False by auto
      qed
      with cap have "captured = Some q" by simp
      with rk c show ?thesis by (simp add: rookTaken_def)
    qed
    from home taken to show ?thesis
      unfolding cs by (auto simp: updateCastling_rights rooksAtHome_def)
  qed
qed

theorem corner_capture_clears_right_witness:
  "\<exists>s s'. playMoves createInitialSnapshot longDiagonal = Inr (Some s)
     \<and> cellAt (board s) 0 7 = Some (Piece Black Rook) \<and> bk (castling s)
     \<and> makeMove s (6, 1) (0, 7) None = Inr (Some s')
     \<and> rec_captured (last (history s')) = Some ''br''
     \<and> \<not> bk (castling s')"
proof -
  have e: "case playMoves createInitialSnapshot longDiagonal of
          Inr (Some s) \<Rightarrow> (cellAt (board s) 0 7 = Some (Piece Black Rook) \<and> bk (castling s)) \<and>
            (case makeMove s (6, 1) (0, 7) None of
               Inr (Some s') \<Rightarrow> rec_captured (last (history s')) = Some ''br''
                 \<and> rec_enPassant (last (history s')) \<noteq> Some True
             | _ \<Rightarrow> False)
        | _ \<Rightarrow> False"
    by code_simp
  from accepted_caseD [OF e] obtain s
    where s: "playMoves createInitialSnapshot longDiagonal = Inr (Some s)"
      and b: "cellAt (board s) 0 7 = Some (Piece Black Rook) \<and> bk (castling s)"
      and e2: "case makeMove s (6, 1) (0, 7) None of
                 Inr (Some s') \<Rightarrow> rec_captured (last (history s')) = Some ''br''
                   \<and> rec_enPassant (last (history s')) \<noteq> Some True
               | _ \<Rightarrow> False"
    by blast
  from accepted_caseD [OF e2] obtain s'
    where m: "makeMove s (6, 1) (0, 7) None = Inr (Some s')"
      and r: "rec_captured (last (history s')) = Some ''br''"
      and n: "rec_enPassant (last (history s')) \<noteq> Some True"
    by blast
  from b have c: "cellAt (board s) (fst (0, 7)) (snd (0, 7)) = Some (Piece Black Rook)" by simp
  from playMoves_played [OF s] have "playedFrom createInitialSnapshot s" .
  then have "(ptyp (Piece Black Rook) = Rook \<and> rec_enPassant (last (history s')) \<noteq> Some True)
              \<or> playedFrom createInitialSnapshot s" by simp
  from corner_capture_clears_right [OF m c this] have "\<not> bk (castling s')" by simp
  with s b m r show ?thesis by blast
qed

text \<open>
  The claim as stated fails: with a white knight on h1 and white's kingside right set,
  the capture of the knight by the bishop on g2 is applied and the right stays set.
\<close>

theorem capture_on_corner_keeps_right:
  "cellAt (board (cornerSnapshot Knight)) 7 7 = Some (Piece White Knight)
   \<and> wk (castling (cornerSnapshot Knight))
   \<and> (case makeMove (cornerSnapshot Knight) (6, 6) (7, 7) None of
        Inr (Some s') \<Rightarrow> rec_captured (last (history s')) = Some ''wn''
          \<and> cellAt (board s') 7 7 = Some (Piece Black Bishop) \<and> wk (castling s')
      | _ \<Rightarrow> False)"
  by code_simp

text \<open>
  An en-passant candidate that ends on a corner exists only when the stored en-passant
  square is that corner, which no played game produces. It removes the piece on the
  corner and records no capture when the square beside it is empty: here the rook on a8
  goes, and black's queenside right stays set.
\<close>

lemma en_passant_onto_corner_keeps_right:
  "cellAt (board enPassantCornerSnapshot) 0 0 = Some (Piece Black Rook)
   \<and> bq (castling enPassantCornerSnapshot)
   \<and> (case makeMove enPassantCornerSnapshot (1, 1) (0, 0) None of
        Inr (Some s') \<Rightarrow> rec_enPassant (last (history s')) = Some True
          \<and> rec_captured (last (history s')) = None
          \<and> cellAt (board s') 0 0 = Some (Piece White Queen) \<and> bq (castling s')
      | _ \<Rightarrow> False)"
  by code_simp

subsection \<open>Ambiguous submissions\<close>

lemma filterE_filter: "filterE f xs = Inr ys \<Longrightarrow> ys = filter (\<lambda>x. f x = Inr True) xs"
  by (induction xs arbitrary: ys) (auto split: sum.splits if_splits)

lemma filter_none: "(\<And>x. x \<in> set xs \<Longrightarrow> \<not> P x) \<Longrightarrow> filter P xs = []"
  by (induction xs) auto

lemma length_filter_conj_le: "length (filter (\<lambda>x. P x \<and> Q x) xs) \<le> length (filter P xs)"
  by (induction xs) auto

lemma pawnPushes_shape:
  "mv \<in> set (pawnPushes s p r c) \<Longrightarrow> snd (mv_to mv) = c \<and> mv_enPassant mv = None"
  by (auto simp: pawnPushes_def Let_def plainMove_def promoMoves_def split: if_splits)

lemma pawnCaptures_to:
  "mv \<in> set (pawnCaptures s p r c dc) \<Longrightarrow>
     mv_to mv = (r + (if pcol p = White then -1 else 1), c + dc)"
  by (auto simp: pawnCaptures_def Let_def plainMove_def promoMoves_def split: if_splits option.splits)

lemma pawnCaptures_nonplain:
  assumes en: "enPassant s = Some (sqName (r + (if pcol p = White then -1 else 1)) (c + dc))"
    and i: "inb (r + (if pcol p = White then -1 else 1)) (c + dc)"
    and ok: "epRankOk (enPassant s)"
  shows "length (filter (\<lambda>mv. \<not> (mv_promotion mv = None \<and> mv_castle mv = None
                                  \<and> mv_enPassant mv \<noteq> Some True))
           (pawnCaptures s p r c dc)) = 1"
proof -
  define rr where "rr = r + (if pcol p = White then -1 else 1)"
  from en ok have "epRankOk (Some (sqName rr (c + dc)))" by (simp add: rr_def)
  from epRankOk_row[OF this] i have "rr = 5 \<or> rr = 2" by (simp add: rr_def)
  then have np: "rr \<noteq> (if pcol p = White then 0 else 7)" by auto
  have "pawnCaptures s p r c dc =
          (case cellAt (board s) rr (c + dc) of
             Some target \<Rightarrow> if pcol target \<noteq> pcol p then [plainMove (r, c) (rr, c + dc)] else []
           | None \<Rightarrow> [])
          @ [(plainMove (r, c) (rr, c + dc))\<lparr>mv_enPassant := Some True\<rparr>]"
    using en i np unfolding pawnCaptures_def Let_def rr_def
    by (auto split: option.splits)
  then show ?thesis
    by (auto simp: plainMove_def split: option.splits)
qed

lemma pawn_nonplain_unique:
  assumes mem: "ch \<in> set (pawnMoves s p r c)" and e: "mv_enPassant ch = Some True"
    and ok: "epRankOk (enPassant s)"
  shows "length (filter (\<lambda>mv. mv_to mv = mv_to ch \<and>
                   \<not> (mv_promotion mv = None \<and> mv_castle mv = None \<and> mv_enPassant mv \<noteq> Some True))
           (pawnMoves s p r c)) \<le> 1"
proof -
  let ?np = "\<lambda>mv. \<not> (mv_promotion mv = None \<and> mv_castle mv = None \<and> mv_enPassant mv \<noteq> Some True)"
  let ?P = "\<lambda>mv. mv_to mv = mv_to ch \<and> ?np mv"
  define dir :: int where "dir = (if pcol p = White then -1 else 1)"
  from mem e obtain dc0 where dc0: "dc0 = -1 \<or> dc0 = 1"
    and c0: "ch \<in> set (pawnCaptures s p r c dc0)"
    by (auto simp: pawnMoves_def dest: pawnPushes_shape)
  from pawnCaptures_to[OF c0] have to: "mv_to ch = (r + dir, c + dc0)" by (simp add: dir_def)
  from pawnMoves_shape[OF mem] e to
  have en: "enPassant s = Some (sqName (r + dir) (c + dc0))" by simp
  from pawnMoves_range[OF mem] to have i: "inb (r + dir) (c + dc0)" by simp
  from to have sndto: "snd (mv_to ch) = c + dc0" by simp
  have pushes: "filter ?P (pawnPushes s p r c) = []"
  proof (intro filter_none)
    fix x assume "x \<in> set (pawnPushes s p r c)"
    from pawnPushes_shape[OF this] have "snd (mv_to x) = c" by simp
    with sndto dc0 have "mv_to x \<noteq> mv_to ch" by auto
    then show "\<not> ?P x" by simp
  qed
  have other: "filter ?P (pawnCaptures s p r c dc) = []" if "dc \<noteq> dc0" for dc
  proof (intro filter_none)
    fix x assume "x \<in> set (pawnCaptures s p r c dc)"
    from pawnCaptures_to[OF this] have "snd (mv_to x) = c + dc" by simp
    with sndto that have "mv_to x \<noteq> mv_to ch" by auto
    then show "\<not> ?P x" by simp
  qed
  have same: "filter ?P (pawnCaptures s p r c dc0) = filter ?np (pawnCaptures s p r c dc0)"
  proof (intro filter_cong refl)
    fix x assume "x \<in> set (pawnCaptures s p r c dc0)"
    from pawnCaptures_to[OF this] to have "mv_to x = mv_to ch" by (simp add: dir_def)
    then show "?P x = ?np x" by simp
  qed
  have one: "length (filter ?np (pawnCaptures s p r c dc0)) = 1"
    using en i ok unfolding dir_def by (rule pawnCaptures_nonplain)
  from dc0 show ?thesis
  proof
    assume d: "dc0 = -1"
    then have "filter ?P (pawnCaptures s p r c 1) = []" by (intro other) simp
    with pushes same one d show ?thesis by (simp add: pawnMoves_def)
  next
    assume d: "dc0 = 1"
    then have "filter ?P (pawnCaptures s p r c (-1)) = []" by (intro other) simp
    with pushes same one d show ?thesis by (simp add: pawnMoves_def)
  qed
qed

lemma push_plain':
  "mv \<in> set (push b p src rr cc) \<Longrightarrow>
     mv_promotion mv = None \<and> mv_castle mv = None \<and> mv_enPassant mv = None"
  by (auto simp: push_def plainMove_def split: if_splits option.splits)

lemma king_nonplain_unique:
  "length (filter (\<lambda>mv. mv_to mv = dst \<and>
              \<not> (mv_promotion mv = None \<and> mv_castle mv = None \<and> mv_enPassant mv \<noteq> Some True))
           (kingMoves s p r c)) \<le> 1"
proof -
  let ?P = "\<lambda>mv. mv_to mv = dst \<and>
              \<not> (mv_promotion mv = None \<and> mv_castle mv = None \<and> mv_enPassant mv \<noteq> Some True)"
  let ?pushes = "concat (map (\<lambda>dr. concat (map (\<lambda>dc.
         if dr \<noteq> 0 \<or> dc \<noteq> 0 then push (board s) p (r, c) (r + dr) (c + dc) else [])
       [-1, 0, 1])) [-1, 0, 1])"
  have "filter ?P ?pushes = []"
    by (intro filter_none) (auto dest!: push_plain' split: if_splits)
  then show ?thesis
    unfolding kingMoves_def filter_append
    by (auto simp: plainMove_def)
qed

lemma slide_plain':
  "mv \<in> set (slide b p src rr cc dr dc) \<Longrightarrow>
     mv_promotion mv = None \<and> mv_castle mv = None \<and> mv_enPassant mv = None"
proof (induction b p src rr cc dr dc rule: slide.induct)
  case (1 b p src rr cc dr dc)
  from "1.prems" have "mv \<in> set (if inb rr cc \<and> (dr \<noteq> 0 \<or> dc \<noteq> 0) then
        (case cellAt b rr cc of
           None \<Rightarrow> plainMove src (rr, cc) # slide b p src (rr + dr) (cc + dc) dr dc
         | Some target \<Rightarrow> if pcol target \<noteq> pcol p then [plainMove src (rr, cc)] else [])
      else [])"
    by (subst (asm) slide.simps) simp
  with "1.IH" show ?case
    by (auto simp: plainMove_def split: if_splits option.splits)
qed

lemma pseudo_nonplain_unique:
  assumes pm: "pseudoMoves s r c = Inr pm" and ok: "epRankOk (enPassant s)"
    and mem: "ch \<in> set pm"
    and np: "\<not> (mv_promotion ch = None \<and> mv_castle ch = None \<and> mv_enPassant ch \<noteq> Some True)"
    and pr: "mv_promotion ch = None"
  shows "length (filter (\<lambda>mv. mv_to mv = mv_to ch \<and>
                   \<not> (mv_promotion mv = None \<and> mv_castle mv = None \<and> mv_enPassant mv \<noteq> Some True))
           pm) \<le> 1"
proof -
  from pm mem obtain p where rd: "readCell (board s) r c = Inr (Some p)"
    by (auto simp: pseudoMoves_def split: sum.splits option.splits)
  show ?thesis
  proof (cases "ptyp p = Pawn")
    case True
    with pm rd have e: "pm = pawnMoves s p r c" by (simp add: pseudoMoves_def)
    with mem pawnMoves_shape[of ch s p r c] np pr have "mv_enPassant ch = Some True" by auto
    with mem ok show ?thesis unfolding e by (intro pawn_nonplain_unique)
  next
    case npawn: False
    show ?thesis
    proof (cases "ptyp p = Knight")
      case True
      with pm rd npawn
      have "pm = concat (map (\<lambda>(dr, dc). push (board s) p (r, c) (r + dr) (c + dc)) KNIGHT)"
        by (simp add: pseudoMoves_def)
      with mem np show ?thesis by (auto dest!: push_plain')
    next
      case nn: False
      show ?thesis
      proof (cases "ptyp p = King")
        case True
        with pm rd npawn nn have e: "pm = kingMoves s p r c" by (simp add: pseudoMoves_def)
        show ?thesis unfolding e by (rule king_nonplain_unique)
      next
        case False
        with pm rd npawn nn mem obtain dirs
          where "ch \<in> set (concat (map (\<lambda>(dr, dc). slide (board s) p (r, c) (r + dr) (c + dc) dr dc) dirs))"
          by (auto simp: pseudoMoves_def Let_def)
        with np show ?thesis by (auto dest!: slide_plain')
      qed
    qed
  qed
qed

lemma find_None_D: "find P xs = None \<Longrightarrow> x \<in> set xs \<Longrightarrow> \<not> P x"
  by (induction xs) (auto split: if_splits)

lemma fallback_unique:
  assumes legal: "legalMovesForSquare s (fst src) (snd src) = Inr legal"
    and ok: "epRankOk (enPassant s)"
    and noexact: "exactMatch legal src dst None = None"
    and ch: "ch \<in> set (candidatesTo legal dst)" and pr: "mv_promotion ch = None"
  shows "length (candidatesTo legal dst) = 1"
proof -
  let ?plain = "\<lambda>mv. mv_promotion mv = None \<and> mv_castle mv = None \<and> mv_enPassant mv \<noteq> Some True"
  from ch have chl: "ch \<in> set legal" and to: "mv_to ch = dst"
    by (auto simp: candidatesTo_def prod_eq_iff)
  from legal chl obtain p pm where pm: "pseudoMoves s (fst src) (snd src) = Inr pm"
    and f: "filterE (keepsKingSafe s p) pm = Inr legal"
    by (auto simp: legalMovesForSquare_def split: sum.splits option.splits)
  have notplain: "\<not> ?plain mv" if "mv \<in> set legal" and "mv_to mv = dst" for mv
  proof
    assume "?plain mv"
    moreover from legal_from[OF legal that(1)] have "mv_from mv = src" by simp
    ultimately have "sameMove mv ((plainMove src dst)\<lparr>mv_promotion := None\<rparr>)"
      using that(2) by (simp add: sameMove_def plainMove_def)
    moreover from noexact that(1)
    have "\<not> sameMove mv ((plainMove src dst)\<lparr>mv_promotion := None\<rparr>)"
      by (auto simp: exactMatch_def Let_def dest: find_None_D)
    ultimately show False by simp
  qed
  from filterE_sound[OF f chl] have chp: "ch \<in> set pm" by simp
  from notplain[OF chl to] have np: "\<not> ?plain ch" .
  from pseudo_nonplain_unique[OF pm ok chp np pr] to
  have le: "length (filter (\<lambda>mv. mv_to mv = dst \<and> \<not> ?plain mv) pm) \<le> 1" by simp
  from filterE_filter[OF f] have lf: "legal = filter (\<lambda>x. keepsKingSafe s p x = Inr True) pm" .
  have "candidatesTo legal dst = filter (\<lambda>mv. mv_to mv = dst \<and> \<not> ?plain mv) legal"
    unfolding candidatesTo_def
    by (intro filter_cong refl) (auto simp: prod_eq_iff dest: notplain)
  also have "\<dots> = filter (\<lambda>mv. (mv_to mv = dst \<and> \<not> ?plain mv) \<and> keepsKingSafe s p mv = Inr True) pm"
    unfolding lf by (simp add: conj_commute)
  finally have "length (candidatesTo legal dst)
      \<le> length (filter (\<lambda>mv. mv_to mv = dst \<and> \<not> ?plain mv) pm)"
    by (simp only: length_filter_conj_le)
  with le have "length (candidatesTo legal dst) \<le> 1" by simp
  moreover from ch have "0 < length (candidatesTo legal dst)"
    by (cases "candidatesTo legal dst") simp_all
  ultimately show ?thesis by linarith
qed

text \<open>
  C3 (as amended). Let a submission be made on a snapshot that is in play, for a piece of
  the side to move, with no legal candidate matching the request exactly. The fallback
  keeps the legal candidates with the requested destination. If a promotion type was
  supplied, the first candidate with that promotion is accepted, and the submission is
  rejected when there is none. With no promotion supplied: if exactly one candidate
  has the destination, it is accepted; otherwise the first candidate that carries no
  promotion is accepted, and the submission is rejected when every candidate with
  that destination carries a promotion (or there is none). That is always so, and the
  submission is rejected whenever the candidates are not exactly one, when the stored
  en-passant square lies on rank 3 or 6, as it does in every snapshot reached from the
  initial snapshot by applied moves.
\<close>

theorem fallback_choice:
  assumes wf: "wf_board (board s)" and play: "status s = Playing"
    and p: "cellAt (board s) (fst src) (snd src) = Some moving" and t: "pcol moving = turn s"
    and legal: "legalMovesForSquare s (fst src) (snd src) = Inr legal"
    and noexact: "exactMatch legal src dst promotion = None"
  shows "(\<forall>pr. promotion = Some pr \<longrightarrow>
            (case find (\<lambda>mv. mv_promotion mv = Some pr) (candidatesTo legal dst) of
               Some ch \<Rightarrow> acceptedWith s src dst promotion ch
             | None \<Rightarrow> makeMove s src dst promotion = Inr None))
       \<and> (promotion = None \<and> length (candidatesTo legal dst) = 1 \<longrightarrow>
            acceptedWith s src dst promotion (candidatesTo legal dst ! 0))
       \<and> (promotion = None \<and> length (candidatesTo legal dst) \<noteq> 1 \<longrightarrow>
            (case find (\<lambda>mv. mv_promotion mv = None) (candidatesTo legal dst) of
               Some ch \<Rightarrow> acceptedWith s src dst promotion ch
             | None \<Rightarrow> makeMove s src dst promotion = Inr None))
       \<and> (promotion = None \<and> length (candidatesTo legal dst) \<noteq> 1
            \<and> (epRankOk (enPassant s) \<or> playedFrom createInitialSnapshot s) \<longrightarrow>
            makeMove s src dst promotion = Inr None)"
proof -
  have base: "case chooseMove legal src dst promotion of
           None \<Rightarrow> makeMove s src dst promotion = Inr None
         | Some ch \<Rightarrow> acceptedWith s src dst promotion ch"
    by (rule makeMove_outcome[OF wf play p t legal])
  have last: "find (\<lambda>mv. mv_promotion mv = None) (candidatesTo legal dst) = None"
    if "promotion = None" and "length (candidatesTo legal dst) \<noteq> 1"
      and "epRankOk (enPassant s) \<or> playedFrom createInitialSnapshot s"
  proof (cases "find (\<lambda>mv. mv_promotion mv = None) (candidatesTo legal dst)")
    case None
    then show ?thesis .
  next
    case (Some ch)
    from find_SomeD[OF Some] have "ch \<in> set (candidatesTo legal dst)" "mv_promotion ch = None"
      by auto
    from that(3) played_invariant[OF _ initial_invariant] have "epRankOk (enPassant s)"
      by (auto simp: playInvariant_def)
    from fallback_unique[OF legal this _ \<open>ch \<in> set (candidatesTo legal dst)\<close>
        \<open>mv_promotion ch = None\<close>] noexact that(1,2)
    show ?thesis by simp
  qed
  from base noexact last show ?thesis
    by (auto simp: chooseMove_def Let_def split: option.splits)
qed

theorem fallback_choice_witness:
  "wf_board (board (promotionSnapshot\<lparr>enPassant := None\<rparr>))
   \<and> epRankOk (enPassant (promotionSnapshot\<lparr>enPassant := None\<rparr>))
   \<and> legalMovesForSquare (promotionSnapshot\<lparr>enPassant := None\<rparr>) 1 1 =
       Inr (promoMoves (1, 1) (0, 1) @ promoMoves (1, 1) (0, 0))
   \<and> exactMatch (promoMoves (1, 1) (0, 1) @ promoMoves (1, 1) (0, 0)) (1, 1) (0, 0) None = None
   \<and> candidatesTo (promoMoves (1, 1) (0, 1) @ promoMoves (1, 1) (0, 0)) (0, 0)
        = promoMoves (1, 1) (0, 0)
   \<and> makeMove (promotionSnapshot\<lparr>enPassant := None\<rparr>) (1, 1) (0, 0) None = Inr None"
proof -
  let ?s = "promotionSnapshot\<lparr>enPassant := None\<rparr>"
  let ?legal = "promoMoves (1, 1) (0, 1) @ promoMoves (1, 1) (0, 0)"
  have wf: "wf_board (board ?s)"
    by (simp add: wf_board_def promotionSnapshot_def emptyRow_def)
  have play: "status ?s = Playing"
    by (simp add: promotionSnapshot_def)
  have p: "cellAt (board ?s) (fst (1, 1)) (snd (1, 1)) = Some (Piece White Pawn)"
    by (simp add: promotionSnapshot_def cellAt_def)
  have t: "pcol (Piece White Pawn) = turn ?s"
    by (simp add: promotionSnapshot_def)
  have ok: "epRankOk (enPassant ?s)"
    by (simp add: epRankOk_def)
  have legal: "legalMovesForSquare ?s (fst (1, 1)) (snd (1, 1)) = Inr ?legal"
    by code_simp
  have noexact: "exactMatch ?legal (1, 1) (0, 0) None = None"
    by (simp add: exactMatch_def promoMoves_def plainMove_def sameMove_def)
  have cands: "candidatesTo ?legal (0, 0) = promoMoves (1, 1) (0, 0)"
    by (simp add: candidatesTo_def promoMoves_def plainMove_def)
  have len: "length (promoMoves (1, 1) (0, 0)) \<noteq> 1"
    by (simp add: promoMoves_def)
  from fallback_choice [OF wf play p t legal noexact] cands len ok
  have "makeMove ?s (1, 1) (0, 0) None = Inr None"
    by simp
  with wf ok legal noexact cands show ?thesis by simp
qed

text \<open>
  The claim as stated fails: in \<open>promotionSnapshot\<close> five legal candidates lead to a8,
  four promotions and the en-passant candidate, none matches the request exactly and
  no promotion is supplied; the submission is accepted, with the en-passant candidate,
  and a queen stands on a8.
\<close>

theorem ambiguous_submission_accepted:
  "case legalMovesForSquare promotionSnapshot 1 1 of
     Inr legal \<Rightarrow>
       exactMatch legal (1, 1) (0, 0) None = None
       \<and> length (candidatesTo legal (0, 0)) = 5
       \<and> length (filter (\<lambda>mv. mv_promotion mv \<noteq> None) (candidatesTo legal (0, 0))) = 4
       \<and> (case makeMove promotionSnapshot (1, 1) (0, 0) None of
             Inr (Some s') \<Rightarrow> cellAt (board s') 0 0 = Some (Piece White Queen)
           | _ \<Rightarrow> False)
   | Inl e \<Rightarrow> False"
  by code_simp

end
